(* ===== verification/Prelude.thy ===== *)
theory Prelude
  imports Main "HOL-Library.Word" "HOL-Library.Char_ord"
begin

text \<open>
  Shared vocabulary of the development: the exceptions and undefined behaviours of the C++
  code as values, a result type for functions that may raise them, the character classes of
  the C locale that the sources call (\<open>std::isalnum\<close>, \<open>std::isspace\<close>, case conversion), and
  the generic list lemmas that several components use.
\<close>

named_theorems res_simps "unfolding of the result monad"
named_theorems char_simps "character classes on concrete characters"

section \<open>Results\<close>

text \<open>
  \<open>Undefined_behaviour\<close> marks an operation whose precondition the C++ standard leaves to the
  caller and which the source does not check: reading out of range, taking the front of an
  empty deque, dereferencing an empty \<open>std::optional\<close>. \<open>Diverges\<close> marks a call that never
  returns. All others are exceptions.
\<close>

datatype cpp_error =
    Undefined_behaviour
  | Json_parse_error
  | Json_type_error
  | Json_out_of_range
  | Invalid_argument
  | Out_of_range
  | Length_error
  | Bad_alloc
  | Bad_optional_access
  | Diverges
  | Runtime_error string
  | System_error string

type_synonym 'a res = "cpp_error + 'a"

abbreviation ok :: "'a \<Rightarrow> 'a res" where
  "ok \<equiv> Inr"

abbreviation raise :: "cpp_error \<Rightarrow> 'a res" where
  "raise \<equiv> Inl"

definition rbind :: "'a res \<Rightarrow> ('a \<Rightarrow> 'b res) \<Rightarrow> 'b res" where
  "rbind r f = (case r of Inl e \<Rightarrow> Inl e | Inr a \<Rightarrow> f a)"

lemma rbind_simps [simp, res_simps]:
  "rbind (Inl e) f = Inl e"
  "rbind (Inr a) f = f a"
  by (simp_all add: rbind_def)

lemma rbind_Inr_conv [res_simps]:
  "rbind r f = Inr b \<longleftrightarrow> (\<exists>a. r = Inr a \<and> f a = Inr b)"
  by (cases r) auto

lemma rbind_Inl_conv [res_simps]:
  "rbind r f = Inl e \<longleftrightarrow> r = Inl e \<or> (\<exists>a. r = Inr a \<and> f a = Inl e)"
  by (cases r) auto

lemma rbind_cong [fundef_cong]:
  "r = r' \<Longrightarrow> (\<And>a. r' = Inr a \<Longrightarrow> f a = g a) \<Longrightarrow> rbind r f = rbind r' g"
  by (cases r') auto

text \<open>A range-based \<open>for\<close> whose body may throw: the first exception leaves the loop.\<close>

fun rmap :: "('a \<Rightarrow> 'b res) \<Rightarrow> 'a list \<Rightarrow> 'b list res" where
  "rmap f [] = ok []"
| "rmap f (x # xs) = rbind (f x) (\<lambda>y. rbind (rmap f xs) (\<lambda>ys. ok (y # ys)))"

lemma rmap_length: "rmap f xs = Inr ys \<Longrightarrow> length ys = length xs"
  by (induction xs arbitrary: ys) (auto simp: res_simps)

lemma rmap_nth:
  "rmap f xs = Inr ys \<Longrightarrow> i < length xs \<Longrightarrow> f (xs ! i) = Inr (ys ! i)"
proof (induction xs arbitrary: ys i)
  case (Cons x xs)
  then show ?case by (cases i) (auto simp: res_simps)
qed simp

lemma rmap_ok_iff: "(\<exists>ys. rmap f xs = Inr ys) \<longleftrightarrow> (\<forall>x\<in>set xs. \<exists>y. f x = Inr y)"
  by (induction xs) (auto simp: res_simps)

lemma rmap_total: "(\<And>x. x \<in> set xs \<Longrightarrow> f x = Inr (g x)) \<Longrightarrow> rmap f xs = Inr (map g xs)"
  by (induction xs) simp_all

section \<open>Characters\<close>

text \<open>The classes of the C locale, which is the one the programs run in.\<close>

definition is_digit :: "char \<Rightarrow> bool" where
  "is_digit c \<longleftrightarrow> 48 \<le> (of_char c :: nat) \<and> (of_char c :: nat) \<le> 57"

definition is_upper :: "char \<Rightarrow> bool" where
  "is_upper c \<longleftrightarrow> 65 \<le> (of_char c :: nat) \<and> (of_char c :: nat) \<le> 90"

definition is_lower :: "char \<Rightarrow> bool" where
  "is_lower c \<longleftrightarrow> 97 \<le> (of_char c :: nat) \<and> (of_char c :: nat) \<le> 122"

definition isalnum :: "char \<Rightarrow> bool" where
  "isalnum c \<longleftrightarrow> is_digit c \<or> is_upper c \<or> is_lower c"

definition isspace :: "char \<Rightarrow> bool" where
  "isspace c \<longleftrightarrow> (of_char c :: nat) = 32 \<or> (9 \<le> (of_char c :: nat) \<and> (of_char c :: nat) \<le> 13)"

definition tolower :: "char \<Rightarrow> char" where
  "tolower c = (if is_upper c then char_of ((of_char c :: nat) + 32) else c)"

definition toupper :: "char \<Rightarrow> char" where
  "toupper c = (if is_lower c then char_of ((of_char c :: nat) - 32) else c)"

lemmas char_class_defs [char_simps] =
  is_digit_def is_upper_def is_lower_def isalnum_def isspace_def tolower_def toupper_def

lemma of_char_less_256 [simp]: "(of_char c :: nat) < 256"
  using nat_of_char_less_256 by simp

lemma of_char_char_of_small [simp]: "n < 256 \<Longrightarrow> (of_char (char_of n :: char) :: nat) = n"
  by simp

lemma of_char_tolower:
  "(of_char (tolower c) :: nat) = (if is_upper c then of_char c + 32 else of_char c)"
  by (auto simp: tolower_def is_upper_def)

lemma of_char_toupper:
  "(of_char (toupper c) :: nat) = (if is_lower c then of_char c - 32 else of_char c)"
  by (auto simp: toupper_def is_lower_def)

lemma isalnum_tolower [simp]: "isalnum (tolower c) = isalnum c"
  by (auto simp: isalnum_def is_digit_def is_lower_def is_upper_def of_char_tolower)

lemma not_upper_tolower [simp]: "\<not> is_upper (tolower c)"
  by (auto simp: is_upper_def of_char_tolower)

lemma tolower_idem [simp]: "tolower (tolower c) = tolower c"
  using not_upper_tolower [of c] by (simp add: tolower_def [of "tolower c"])

lemma not_lower_toupper [simp]: "\<not> is_lower (toupper c)"
  by (auto simp: is_lower_def of_char_toupper)

lemma toupper_idem [simp]: "toupper (toupper c) = toupper c"
  using not_lower_toupper [of c] by (simp add: toupper_def [of "toupper c"])

section \<open>Lists\<close>

text \<open>\<open>std::find_if\<close>: the position of the first match, \<open>None\<close> for \<open>end()\<close>.\<close>

fun find_index :: "('a \<Rightarrow> bool) \<Rightarrow> 'a list \<Rightarrow> nat option" where
  "find_index p [] = None"
| "find_index p (x # xs) = (if p x then Some 0 else map_option Suc (find_index p xs))"

lemma find_index_None: "find_index p xs = None \<longleftrightarrow> (\<forall>x\<in>set xs. \<not> p x)"
  by (induction xs) auto

lemma find_index_Some:
  "find_index p xs = Some i \<Longrightarrow> i < length xs \<and> p (xs ! i) \<and> (\<forall>j<i. \<not> p (xs ! j))"
proof (induction xs arbitrary: i)
  case (Cons x xs)
  show ?case
  proof (cases "p x")
    case True
    with Cons.prems show ?thesis by simp
  next
    case False
    with Cons.prems obtain k where k: "find_index p xs = Some k" "i = Suc k" by auto
    with Cons.IH [OF k(1)] False show ?thesis
      by (auto simp: less_Suc_eq_0_disj)
  qed
qed simp

text \<open>\<open>vector::erase\<close> at a position.\<close>

definition erase_at :: "nat \<Rightarrow> 'a list \<Rightarrow> 'a list" where
  "erase_at i xs = take i xs @ drop (Suc i) xs"

lemma erase_at_simps [simp]:
  "erase_at 0 (x # xs) = xs"
  "erase_at (Suc i) (x # xs) = x # erase_at i xs"
  by (simp_all add: erase_at_def)

lemma set_erase_at: "set (erase_at i xs) \<subseteq> set xs"
  by (auto simp: erase_at_def dest: in_set_takeD in_set_dropD)

end
