(* ===== verification/Containers.thy ===== *)
theory Containers
  imports Prelude
begin

text \<open>
  common/containers.hpp: \<open>locked_set_t\<close> (a mutex-protected \<open>std::unordered_set\<close>) and
  \<open>waitable_container_t\<close> (a blocking deque with a condition variable). A C++ member \<open>x_\<close> is a record field
  \<open>m_x\<close>. The first part models
  the operations as the sequential effects of their critical sections; the second models the
  blocking itself: threads inside \<open>get\<close> that sleep on the condition variable, notifications and
  spurious wake-ups. The locale \<open>fifo_queue\<close> states what the consumer loops rely on.
\<close>

section \<open>locked_set_t\<close>

text \<open>
  An \<open>unordered_set\<close> is a list without repetitions in its (unspecified) iteration order; the
  properties below never depend on that order.
\<close>

record 'a locked_set_t = m_set :: "'a list"

definition locked_set_empty :: "'a locked_set_t" where
  "locked_set_empty = \<lparr>m_set = []\<rparr>"

definition insert_item :: "'a \<Rightarrow> 'a locked_set_t \<Rightarrow> 'a locked_set_t" where
  "insert_item item s = (if item \<in> set (m_set s) then s else s\<lparr>m_set := m_set s @ [item]\<rparr>)"

fun insert_list :: "'a list \<Rightarrow> 'a locked_set_t \<Rightarrow> 'a locked_set_t" where
  "insert_list [] s = s"
| "insert_list (x # xs) s = insert_list xs (insert_item x s)"

definition all_items_matching :: "('a \<Rightarrow> bool) \<Rightarrow> 'a locked_set_t \<Rightarrow> 'a list" where
  "all_items_matching f s = filter f (m_set s)"

definition locked_set_inv :: "'a locked_set_t \<Rightarrow> bool" where
  "locked_set_inv s \<longleftrightarrow> distinct (m_set s)"

lemma set_insert_item [simp]: "set (m_set (insert_item x s)) = insert x (set (m_set s))"
  by (auto simp: insert_item_def)

lemma inv_insert_item [simp]: "locked_set_inv s \<Longrightarrow> locked_set_inv (insert_item x s)"
  by (auto simp: insert_item_def locked_set_inv_def)

lemma set_insert_list [simp]: "set (m_set (insert_list xs s)) = set xs \<union> set (m_set s)"
  by (induction xs arbitrary: s) auto

lemma inv_insert_list [simp]: "locked_set_inv s \<Longrightarrow> locked_set_inv (insert_list xs s)"
  by (induction xs arbitrary: s) auto

lemma all_items_matching_spec:
  assumes "locked_set_inv s"
  shows "distinct (all_items_matching f s)"
    and "set (all_items_matching f s) = {x \<in> set (m_set s). f x}"
  using assms by (auto simp: all_items_matching_def locked_set_inv_def)

text \<open>The contract of a set of items, and its instance for \<open>locked_set_t\<close>.\<close>

locale item_set =
  fixes emptyS :: "'s"
    and ins :: "'a \<Rightarrow> 's \<Rightarrow> 's"
    and ins_all :: "'a list \<Rightarrow> 's \<Rightarrow> 's"
    and matching :: "('a \<Rightarrow> bool) \<Rightarrow> 's \<Rightarrow> 'a list"
    and elems :: "'s \<Rightarrow> 'a set"
    and inv :: "'s \<Rightarrow> bool"
  assumes inv_empty: "inv emptyS"
    and inv_ins: "inv s \<Longrightarrow> inv (ins x s)"
    and inv_ins_all: "inv s \<Longrightarrow> inv (ins_all xs s)"
    and elems_empty: "elems emptyS = {}"
    and elems_ins: "inv s \<Longrightarrow> elems (ins x s) = insert x (elems s)"
    and elems_ins_all: "inv s \<Longrightarrow> elems (ins_all xs s) = set xs \<union> elems s"
    and matching_distinct: "inv s \<Longrightarrow> distinct (matching f s)"
    and matching_elems: "inv s \<Longrightarrow> set (matching f s) = {x \<in> elems s. f x}"
begin

lemma inv_batches: "inv s \<Longrightarrow> inv (fold ins_all xss s)"
  by (induction xss arbitrary: s) (auto intro: inv_ins_all)

lemma elems_batches: "inv s \<Longrightarrow> elems (fold ins_all xss s) = (\<Union>xs\<in>set xss. set xs) \<union> elems s"
  by (induction xss arbitrary: s) (auto simp: inv_ins_all elems_ins_all)

text \<open>Whatever the batches were, a query lists each matching item that was ever inserted
  exactly once.\<close>

lemma matching_batches:
  "set (matching f (fold ins_all xss emptyS)) = {x \<in> (\<Union>xs\<in>set xss. set xs). f x}
   \<and> distinct (matching f (fold ins_all xss emptyS))"
  using inv_batches [OF inv_empty, of xss] elems_batches [OF inv_empty, of xss]
  by (simp add: matching_distinct matching_elems elems_empty)

end

interpretation ls: item_set locked_set_empty insert_item insert_list all_items_matching
  "\<lambda>s. set (m_set s)" locked_set_inv
  by unfold_locales
    (auto simp: locked_set_empty_def locked_set_inv_def all_items_matching_spec
      intro: inv_insert_item [unfolded locked_set_inv_def]
        inv_insert_list [unfolded locked_set_inv_def])

section \<open>waitable_container_t, as a queue\<close>

record 'a waitable_container_t = m_container :: "'a list"

definition waitable_empty :: "'a waitable_container_t" where
  "waitable_empty = \<lparr>m_container = []\<rparr>"

text \<open>\<open>get\<close> blocks while the deque is empty: the result \<open>None\<close> is "does not return yet".\<close>

definition get :: "'a waitable_container_t \<Rightarrow> ('a \<times> 'a waitable_container_t) option" where
  "get q = (case m_container q of [] \<Rightarrow> None | x # xs \<Rightarrow> Some (x, q\<lparr>m_container := xs\<rparr>))"

definition append_item :: "'a \<Rightarrow> 'a waitable_container_t \<Rightarrow> 'a waitable_container_t" where
  "append_item x q = q\<lparr>m_container := m_container q @ [x]\<rparr>"

definition append_list :: "'a list \<Rightarrow> 'a waitable_container_t \<Rightarrow> 'a waitable_container_t" where
  "append_list xs q = q\<lparr>m_container := m_container q @ xs\<rparr>"

text \<open>
  The consumer threads all have the shape \<open>while (true) { auto item = c.get(); body(item); }\<close>.
  \<open>consumer_loop\<close> runs at most the given number of iterations and stops early where \<open>get\<close>
  blocks.
\<close>

fun consumer_loop ::
  "('q \<Rightarrow> ('a \<times> 'q) option) \<Rightarrow> ('a \<Rightarrow> 's \<Rightarrow> 's) \<Rightarrow> nat \<Rightarrow> 'q \<Rightarrow> 's \<Rightarrow> 'q \<times> 's" where
  "consumer_loop getf body 0 q s = (q, s)"
| "consumer_loop getf body (Suc n) q s =
     (case getf q of
        None \<Rightarrow> (q, s)
      | Some (x, q') \<Rightarrow> consumer_loop getf body n q' (body x s))"

locale fifo_queue =
  fixes emptyQ :: "'q"
    and put :: "'a \<Rightarrow> 'q \<Rightarrow> 'q"
    and put_all :: "'a list \<Rightarrow> 'q \<Rightarrow> 'q"
    and takef :: "'q \<Rightarrow> ('a \<times> 'q) option"
    and items :: "'q \<Rightarrow> 'a list"
  assumes items_empty: "items emptyQ = []"
    and items_put: "items (put x q) = items q @ [x]"
    and items_put_all: "items (put_all xs q) = items q @ xs"
    and take_blocked: "items q = [] \<Longrightarrow> takef q = None"
    and take_ready: "items q = x # xs \<Longrightarrow> \<exists>q'. takef q = Some (x, q') \<and> items q' = xs"
begin

text \<open>A consumer processes the items in the order in which they were put.\<close>

lemma consumer_loop_fold:
  "snd (consumer_loop takef body n q s) = fold body (take n (items q)) s
   \<and> items (fst (consumer_loop takef body n q s)) = drop n (items q)"
proof (induction n arbitrary: q s)
  case 0
  then show ?case by simp
next
  case (Suc n)
  show ?case
  proof (cases "items q")
    case Nil
    then show ?thesis by (simp add: take_blocked)
  next
    case (Cons x xs)
    then obtain q' where "takef q = Some (x, q')" "items q' = xs"
      using take_ready by blast
    with Cons Suc.IH [of q' "body x s"] show ?thesis by simp
  qed
qed

lemma consumer_drains:
  "length (items q) \<le> n \<Longrightarrow>
   snd (consumer_loop takef body n q s) = fold body (items q) s
   \<and> items (fst (consumer_loop takef body n q s)) = []"
  using consumer_loop_fold [of body n q s] by simp

lemma put_list: "items (fold put xs q) = items q @ xs"
  by (induction xs arbitrary: q) (simp_all add: items_put)

end

interpretation wc: fifo_queue waitable_empty append_item append_list get m_container
  by unfold_locales (auto simp: waitable_empty_def append_item_def append_list_def get_def)

section \<open>waitable_container_t, with its waiting threads\<close>

text \<open>
  \<open>blocked\<close>: the threads asleep in \<open>cv_.wait\<close>; \<open>notified\<close>: the threads that were woken and have
  not yet re-taken the mutex to test the predicate. Each event is one critical section of the
  mutex, or a (spurious) wake-up. \<open>delivered\<close> records what each \<open>get\<close> returned to its caller and
  \<open>produced\<close> what was appended, both in order.
\<close>

datatype 'a wait_event =
    Get_call nat
  | Wake_up nat
  | Spurious nat
  | Append_call 'a
  | Append_list_call "'a list"

record 'a waiting_queue =
  wq_queue :: "'a waitable_container_t"
  blocked :: "nat set"
  notified :: "nat set"
  delivered :: "(nat \<times> 'a) list"
  produced :: "'a list"

definition wq_init :: "'a waiting_queue" where
  "wq_init = \<lparr>wq_queue = waitable_empty, blocked = {}, notified = {}, delivered = [],
     produced = []\<rparr>"

text \<open>The predicate test of \<open>cv_.wait\<close>, and what \<open>get\<close> does once it holds.\<close>

definition test_predicate :: "nat \<Rightarrow> 'a waiting_queue \<Rightarrow> 'a waiting_queue" where
  "test_predicate t w =
     (case get (wq_queue w) of
        None \<Rightarrow> w\<lparr>blocked := insert t (blocked w)\<rparr>
      | Some (x, q) \<Rightarrow> w\<lparr>wq_queue := q, delivered := delivered w @ [(t, x)]\<rparr>)"

definition notify_all :: "'a waiting_queue \<Rightarrow> 'a waiting_queue" where
  "notify_all w = w\<lparr>notified := notified w \<union> blocked w, blocked := {}\<rparr>"

definition wait_enabled :: "'a wait_event \<Rightarrow> 'a waiting_queue \<Rightarrow> bool" where
  "wait_enabled e w = (case e of
     Get_call t \<Rightarrow> t \<notin> blocked w \<and> t \<notin> notified w
   | Wake_up t \<Rightarrow> t \<in> notified w
   | Spurious t \<Rightarrow> t \<in> blocked w
   | _ \<Rightarrow> True)"

fun wait_step :: "'a wait_event \<Rightarrow> 'a waiting_queue \<Rightarrow> 'a waiting_queue" where
  "wait_step (Get_call t) w = test_predicate t w"
| "wait_step (Wake_up t) w = test_predicate t (w\<lparr>notified := notified w - {t}\<rparr>)"
| "wait_step (Spurious t) w = w\<lparr>blocked := blocked w - {t}, notified := insert t (notified w)\<rparr>"
| "wait_step (Append_call x) w =
     notify_all (w\<lparr>wq_queue := append_item x (wq_queue w), produced := produced w @ [x]\<rparr>)"
| "wait_step (Append_list_call xs) w =
     notify_all (w\<lparr>wq_queue := append_list xs (wq_queue w), produced := produced w @ xs\<rparr>)"

inductive wq_reachable :: "'a waiting_queue \<Rightarrow> bool" where
  wq_start: "wq_reachable wq_init"
| wq_move: "wq_reachable w \<Longrightarrow> wait_enabled e w \<Longrightarrow> wq_reachable (wait_step e w)"

definition wq_inv :: "'a waiting_queue \<Rightarrow> bool" where
  "wq_inv w \<longleftrightarrow>
     (blocked w = {} \<or> m_container (wq_queue w) = []) \<and> blocked w \<inter> notified w = {} \<and>
     map snd (delivered w) @ m_container (wq_queue w) = produced w"

lemma get_None: "get q = None \<Longrightarrow> m_container q = []"
  by (simp add: get_def split: list.splits)

lemma get_Some: "get q = Some (x, q') \<Longrightarrow> m_container q = x # m_container q'"
  by (auto simp: get_def split: list.splits)

lemma test_predicate_inv:
  "wq_inv w \<Longrightarrow> t \<notin> notified w \<Longrightarrow> wq_inv (test_predicate t w)"
  by (auto simp: wq_inv_def test_predicate_def dest: get_None get_Some split: option.splits)

lemma wait_step_inv: "wq_inv w \<Longrightarrow> wait_enabled e w \<Longrightarrow> wq_inv (wait_step e w)"
proof (cases e)
  case (Wake_up t)
  moreover assume "wq_inv w"
  then have "wq_inv (w\<lparr>notified := notified w - {t}\<rparr>)" by (auto simp: wq_inv_def)
  ultimately show ?thesis by (simp add: test_predicate_inv)
qed (auto simp: test_predicate_inv wait_enabled_def,
     auto simp: wq_inv_def notify_all_def append_item_def append_list_def)

lemma wq_reachable_inv: "wq_reachable w \<Longrightarrow> wq_inv w"
proof (induction rule: wq_reachable.induct)
  case wq_start
  show ?case by (simp add: wq_inv_def wq_init_def waitable_empty_def)
qed (rule wait_step_inv)

section \<open>Properties\<close>

text \<open>
  C22. No lost wake-up: in every reachable state of any number of threads calling \<open>get\<close>, \<open>append\<close>
  and \<open>append_list\<close>, with spurious wake-ups at any time, a thread sleeps on the condition variable
  only while the container is empty.
\<close>

theorem no_lost_wakeup:
  assumes "wq_reachable w"
  shows "blocked w = {} \<or> m_container (wq_queue w) = []"
  using wq_reachable_inv [OF assms] by (simp add: wq_inv_def)

lemma reachable_example:
  "wq_reachable (wait_step (Wake_up 1) (wait_step (Append_list_call [5 :: nat, 6])
     (wait_step (Get_call 1) (wait_step (Get_call 2) wq_init))))"
  by (rule wq_move [OF wq_move [OF wq_move [OF wq_move [OF wq_start]]]])
    (simp_all add: wait_enabled_def wq_init_def test_predicate_def get_def waitable_empty_def
      notify_all_def append_list_def)

lemmas reachable_example_defs = wq_init_def test_predicate_def get_def waitable_empty_def
  notify_all_def append_list_def

theorem no_lost_wakeup_witness:
  "\<exists>w :: nat waiting_queue. wq_reachable w \<and> delivered w = [(1, 5)]
     \<and> (blocked w = {} \<or> m_container (wq_queue w) = [])"
proof -
  let ?w = "wait_step (Wake_up 1) (wait_step (Append_list_call [5 :: nat, 6])
     (wait_step (Get_call 1) (wait_step (Get_call 2) wq_init)))"
  have "delivered ?w = [(1, 5)]" by (simp add: reachable_example_defs)
  with no_lost_wakeup [OF reachable_example] reachable_example show ?thesis by blast
qed

text \<open>
  C23. Every appended item is handed to exactly one \<open>get\<close>, in the order of the appends: what the
  consumers have received followed by what is still queued is what was produced.
\<close>

theorem delivered_in_order:
  assumes "wq_reachable w"
  shows "map snd (delivered w) @ m_container (wq_queue w) = produced w"
  using wq_reachable_inv [OF assms] by (simp add: wq_inv_def)

theorem delivered_in_order_witness:
  "\<exists>w :: nat waiting_queue. wq_reachable w \<and> produced w = [5, 6]
     \<and> map snd (delivered w) @ m_container (wq_queue w) = [5, 6]"
proof -
  let ?w = "wait_step (Wake_up 1) (wait_step (Append_list_call [5 :: nat, 6])
     (wait_step (Get_call 1) (wait_step (Get_call 2) wq_init)))"
  have "produced ?w = [5, 6]" by (simp add: reachable_example_defs)
  with delivered_in_order [OF reachable_example] reachable_example show ?thesis by metis
qed

text \<open>
  A query of the locked set lists every matching item that some batch inserted, each once,
  however often it was inserted.
\<close>

theorem locked_set_batches:
  "set (all_items_matching f (fold insert_list batches locked_set_empty))
     = {x \<in> (\<Union>b\<in>set batches. set b). f x}
   \<and> distinct (all_items_matching f (fold insert_list batches locked_set_empty))"
  by (rule ls.matching_batches)

end
