(* ===== verification/Async.thy ===== *)
theory Async
  imports Prelude
begin

text \<open>
  The shape shared by the asynchronous clients (user_data_stream_t, listen_key_keepalive_t,
  chat_update_t, tg_message_sender_t, market_data_stream_t, session_t, server_t). Each is an
  object whose member functions start Boost.Asio operations and whose completion handlers run
  later, one at a time, on the \<open>io_context\<close>. A handler is a function from the completion event
  and the object's state to a result: an uncaught C++ error, or the new state with the list of
  actions it performed in order: asynchronous operations it started, and outputs visible
  outside the object (callbacks, messages put into a container).

  A configuration holds the object, the operations in flight, and everything output so far.
  Completing an operation removes it from those in flight and runs its handler. Events that
  complete no operation (\<open>None\<close>) are calls of public member functions from outside.
\<close>

datatype ('op, 'out) action = Start 'op | Emit 'out

fun started :: "('op, 'out) action list \<Rightarrow> 'op list" where
  "started [] = []"
| "started (Start p # as) = p # started as"
| "started (Emit m # as) = started as"

fun emitted :: "('op, 'out) action list \<Rightarrow> 'out list" where
  "emitted [] = []"
| "emitted (Start p # as) = emitted as"
| "emitted (Emit m # as) = m # emitted as"

lemma started_append [simp]: "started (as @ bs) = started as @ started bs"
  by (induction as rule: started.induct) auto

lemma emitted_append [simp]: "emitted (as @ bs) = emitted as @ emitted bs"
  by (induction as rule: emitted.induct) auto

text \<open>A handler or member function from state to state with its actions.\<close>

type_synonym ('s, 'op, 'out) handler = "'s \<Rightarrow> ('s \<times> ('op, 'out) action list) res"

text \<open>Calling one member function after another.\<close>

definition seq_h ::
  "('s, 'op, 'out) handler \<Rightarrow> ('s, 'op, 'out) handler \<Rightarrow> ('s, 'op, 'out) handler" where
  "seq_h f g s = rbind (f s) (\<lambda>(s1, as1). rbind (g s1) (\<lambda>(s2, as2). ok (s2, as1 @ as2)))"

lemma seq_h_ok: "f s = ok (s1, as) \<Longrightarrow>
  seq_h f g s = rbind (g s1) (\<lambda>(s2, as2). ok (s2, as @ as2))"
  by (simp add: seq_h_def)

text \<open>Output before calling a member function.\<close>

definition emit_then :: "'out \<Rightarrow> ('s, 'op, 'out) handler \<Rightarrow> ('s, 'op, 'out) handler" where
  "emit_then m f s = rbind (f s) (\<lambda>(s1, as). ok (s1, Emit m # as))"

record ('s, 'op, 'out) conf =
  obj :: 's
  pend :: "'op list"
  outs :: "'out list"
  fault :: "cpp_error option"

definition conf_of :: "('s \<times> ('op, 'out) action list) res \<Rightarrow> ('s, 'op, 'out) conf \<Rightarrow>
    ('s, 'op, 'out) conf" where
  "conf_of r c = (case r of
     Inl e \<Rightarrow> c\<lparr>fault := Some e\<rparr>
   | Inr (s, as) \<Rightarrow>
       c\<lparr>obj := s, pend := pend c @ started as, outs := outs c @ emitted as\<rparr>)"

definition conf_init :: "'s \<Rightarrow> ('s, 'op, 'out) conf" where
  "conf_init s = \<lparr>obj = s, pend = [], outs = [], fault = None\<rparr>"

text \<open>
  The step of a client given by \<open>op_of\<close> (which operation an event completes), \<open>enabled\<close> (which
  completions Asio can deliver in a configuration) and \<open>handle\<close>. After an uncaught error the
  program has terminated: no event is possible.
\<close>

definition can_happen ::
  "('ev \<Rightarrow> 'op option) \<Rightarrow> (('s, 'op, 'out) conf \<Rightarrow> 'ev \<Rightarrow> bool) \<Rightarrow> 'ev \<Rightarrow>
   ('s, 'op, 'out) conf \<Rightarrow> bool" where
  "can_happen op_of enabled ev c \<longleftrightarrow> fault c = None \<and> enabled c ev \<and>
     (case op_of ev of None \<Rightarrow> True | Some p \<Rightarrow> p \<in> set (pend c))"

definition happen ::
  "('ev \<Rightarrow> 'op option) \<Rightarrow> ('ev \<Rightarrow> ('s, 'op, 'out) handler) \<Rightarrow> 'ev \<Rightarrow>
   ('s, 'op, 'out) conf \<Rightarrow> ('s, 'op, 'out) conf" where
  "happen op_of handle ev c = (let c' =
      (case op_of ev of None \<Rightarrow> c | Some p \<Rightarrow> c\<lparr>pend := remove1 p (pend c)\<rparr>)
    in conf_of (handle ev (obj c)) c')"

text \<open>With only one operation in flight, an event completes this one.\<close>

lemma completes_only:
  assumes "can_happen op_of enabled ev c" "op_of ev = Some p" "\<And>q. q \<in> set (pend c) \<Longrightarrow> pend c = [q]"
  shows "pend c = [p]"
  using assms by (simp add: can_happen_def)

inductive reaches ::
  "('ev \<Rightarrow> 'op option) \<Rightarrow> (('s, 'op, 'out) conf \<Rightarrow> 'ev \<Rightarrow> bool) \<Rightarrow>
   ('ev \<Rightarrow> ('s, 'op, 'out) handler) \<Rightarrow> ('s, 'op, 'out) conf \<Rightarrow> 'ev list \<Rightarrow>
   ('s, 'op, 'out) conf \<Rightarrow> bool"
  for op_of enabled handle where
  reach_refl: "reaches op_of enabled handle c [] c"
| reach_step: "reaches op_of enabled handle c evs c' \<Longrightarrow> can_happen op_of enabled ev c' \<Longrightarrow>
     reaches op_of enabled handle c (evs @ [ev]) (happen op_of handle ev c')"

text \<open>The same as an executable run over a schedule; \<open>None\<close> when an event is not possible.\<close>

fun run_events ::
  "('ev \<Rightarrow> 'op option) \<Rightarrow> (('s, 'op, 'out) conf \<Rightarrow> 'ev \<Rightarrow> bool) \<Rightarrow>
   ('ev \<Rightarrow> ('s, 'op, 'out) handler) \<Rightarrow> 'ev list \<Rightarrow> ('s, 'op, 'out) conf \<Rightarrow>
   ('s, 'op, 'out) conf option" where
  "run_events op_of enabled handle [] c = Some c"
| "run_events op_of enabled handle (ev # evs) c =
     (if can_happen op_of enabled ev c
      then run_events op_of enabled handle evs (happen op_of handle ev c) else None)"

lemma run_events_snoc:
  "run_events op_of enabled handle (evs @ [ev]) c =
     (case run_events op_of enabled handle evs c of
        None \<Rightarrow> None
      | Some c' \<Rightarrow> if can_happen op_of enabled ev c' then Some (happen op_of handle ev c') else None)"
  by (induction evs arbitrary: c) auto

lemma reaches_iff_run:
  "reaches op_of enabled handle c evs c' \<longleftrightarrow> run_events op_of enabled handle evs c = Some c'"
proof
  assume "reaches op_of enabled handle c evs c'"
  then show "run_events op_of enabled handle evs c = Some c'"
    by (induction rule: reaches.induct) (simp_all add: run_events_snoc)
next
  show "run_events op_of enabled handle evs c = Some c' \<Longrightarrow> reaches op_of enabled handle c evs c'"
  proof (induction evs arbitrary: c' rule: rev_induct)
    case Nil
    then show ?case by (auto intro: reach_refl)
  next
    case (snoc ev evs)
    then show ?case
      by (auto simp: run_events_snoc intro: reach_step split: option.splits if_splits)
  qed
qed

text \<open>A property of configurations that every possible event keeps holds after a run.\<close>

lemma run_events_keeps:
  assumes "run_events op_of enabled handle evs c = Some c'" "P c"
    and "\<And>c ev. P c \<Longrightarrow> can_happen op_of enabled ev c \<Longrightarrow> P (happen op_of handle ev c)"
  shows "P c'"
  using assms(1,2)
proof (induction evs arbitrary: c)
  case (Cons ev evs)
  then have "can_happen op_of enabled ev c" by (simp split: if_splits)
  with Cons assms(3) show ?case by simp
qed simp

section \<open>Invariants of asynchronous clients\<close>

text \<open>
  Every client establishes its properties the same way: an invariant between the events so far
  and the configuration holds in the configuration that the constructor and the first call leave,
  and every possible event keeps it.
\<close>

locale async_client =
  fixes op_of :: "'ev \<Rightarrow> 'op option"
    and enabled :: "('s, 'op, 'out) conf \<Rightarrow> 'ev \<Rightarrow> bool"
    and handle :: "'ev \<Rightarrow> ('s, 'op, 'out) handler"
    and start :: "('s, 'op, 'out) conf \<Rightarrow> bool"
    and Inv :: "('s, 'op, 'out) conf \<Rightarrow> 'ev list \<Rightarrow> ('s, 'op, 'out) conf \<Rightarrow> bool"
  assumes inv_start: "start c \<Longrightarrow> Inv c [] c"
    and inv_step: "start c0 \<Longrightarrow> Inv c0 evs c \<Longrightarrow> can_happen op_of enabled ev c \<Longrightarrow>
      Inv c0 (evs @ [ev]) (happen op_of handle ev c)"
begin

lemma inv_reaches: "reaches op_of enabled handle c evs c' \<Longrightarrow> start c \<Longrightarrow> Inv c evs c'"
  by (induction rule: reaches.induct) (auto intro: inv_start inv_step)

lemma inv_run: "run_events op_of enabled handle evs c = Some c' \<Longrightarrow> start c \<Longrightarrow> Inv c evs c'"
  using inv_reaches by (simp add: reaches_iff_run)

end

text \<open>A client whose invariant knows what an escaped error was caused by.\<close>

locale checked_client = async_client op_of enabled handle start Inv
  for op_of :: "'ev \<Rightarrow> 'op option"
    and enabled :: "('s, 'op, 'out) conf \<Rightarrow> 'ev \<Rightarrow> bool"
    and handle :: "'ev \<Rightarrow> ('s, 'op, 'out) handler"
    and start :: "('s, 'op, 'out) conf \<Rightarrow> bool"
    and Inv :: "('s, 'op, 'out) conf \<Rightarrow> 'ev list \<Rightarrow> ('s, 'op, 'out) conf \<Rightarrow> bool" +
  fixes cause :: "('s, 'op, 'out) conf \<Rightarrow> 'ev list \<Rightarrow> cpp_error \<Rightarrow> bool"
  assumes inv_fault: "Inv c0 evs c \<Longrightarrow> fault c = Some e \<Longrightarrow> cause c evs e"
begin

lemma fault_run:
  "run_events op_of enabled handle evs c = Some c' \<Longrightarrow> start c \<Longrightarrow> fault c' = Some e \<Longrightarrow> cause c' evs e"
  by (rule inv_fault [OF inv_run])

lemma no_fault_run:
  assumes "run_events op_of enabled handle evs c = Some c'" "start c" "\<And>c e. \<not> cause c evs e"
  shows "fault c' = None"
  using fault_run [OF assms(1,2)] assms(3) by (cases "fault c'") auto

end

text \<open>A client from which no error ever escapes: nothing can be the cause of one.\<close>

locale safe_client = async_client +
  assumes inv_safe: "Inv c0 evs c \<Longrightarrow> fault c = None"

sublocale safe_client \<subseteq> checked_client op_of enabled handle start Inv "\<lambda>_ _ _. False"
  by unfold_locales (simp add: inv_safe)

text \<open>A client whose every event brings it closer to its end: all runs are finite.\<close>

locale finite_client = async_client +
  fixes rank :: "('s, 'op, 'out) conf \<Rightarrow> nat"
  assumes rank_step: "Inv c0 evs c \<Longrightarrow> can_happen op_of enabled ev c \<Longrightarrow> rank (happen op_of handle ev c) < rank c"
begin

lemma length_run:
  assumes "run_events op_of enabled handle evs c = Some c'" "start c"
  shows "length evs + rank c' \<le> rank c"
  using assms(1)
proof (induction evs arbitrary: c' rule: rev_induct)
  case (snoc ev evs)
  then obtain d where d: "run_events op_of enabled handle evs c = Some d"
    "can_happen op_of enabled ev d" "c' = happen op_of handle ev d"
    by (auto simp: run_events_snoc split: option.splits if_splits)
  from rank_step [OF inv_run [OF d(1) assms(2)] d(2)] snoc.IH [OF d(1)] d(3) show ?case by simp
qed simp

end

lemmas async_defs = conf_of_def happen_def can_happen_def conf_init_def seq_h_def emit_then_def

end
