(* ===== verification/Base64.thy ===== *)
theory Base64
  imports Prelude
begin

text \<open>
  common/crypto.cpp: \<open>base64_encode\<close> and \<open>base64_decode\<close>. The accumulator is the 32-bit
  \<open>unsigned int\<close> of the code, whose high bits are shifted out and never cleared; the reference
  definition \<open>b64_spec\<close> is RFC 4648 on groups of three bytes. The lemmas show that the loops
  compute the reference encoding, that the output buffer is never overrun, and that decoding
  inverts encoding.
\<close>

unbundle bit_operations_syntax

section \<open>The encoder\<close>

definition b64_table :: string where
  "b64_table = ''ABCDEFGHIJKLMNOPQRSTUVWXYZabcdefghijklmnopqrstuvwxyz0123456789+/''"

text \<open>\<open>retval[pos] = c\<close>: no bounds check in the code.\<close>

definition put_char :: "nat \<Rightarrow> char \<Rightarrow> string \<Rightarrow> string res" where
  "put_char i c buf = (if i < length buf then ok (buf[i := c]) else raise Undefined_behaviour)"

text \<open>
  \<open>accumulator = (accumulator << 8) | (i & 0xffu)\<close>, and the table lookup for the six bits above
  the \<open>bits\<close> that stay: \<open>b64_table[(accumulator >> bits) & 0x3fu]\<close>.
\<close>

definition enc_shift :: "32 word \<Rightarrow> 8 word \<Rightarrow> 32 word" where
  "enc_shift acc i = push_bit 8 acc OR (ucast i AND 255)"

definition enc_char :: "nat \<Rightarrow> 32 word \<Rightarrow> char" where
  "enc_char bits acc = b64_table ! unat (drop_bit bits acc AND 63)"

text \<open>The trailing bits: \<open>accumulator <<= 6 - bits; b64_table[accumulator & 0x3fu]\<close>.\<close>

definition enc_tail_char :: "nat \<Rightarrow> 32 word \<Rightarrow> char" where
  "enc_tail_char bits acc = enc_char 0 (push_bit (6 - bits) acc)"

text \<open>The state of the encoding loop: retval, outpos, bits_collected, accumulator.\<close>

type_synonym enc_state = "string \<times> nat \<times> nat \<times> 32 word"

fun enc_drain :: "enc_state \<Rightarrow> enc_state res" where
  "enc_drain (retval, outpos, bits, acc) =
     (if 6 \<le> bits then
        rbind (put_char outpos (enc_char (bits - 6) acc) retval)
          (\<lambda>retval. enc_drain (retval, outpos + 1, bits - 6, acc))
      else ok (retval, outpos, bits, acc))"

declare enc_drain.simps [simp del]

fun enc_loop :: "8 word list \<Rightarrow> enc_state \<Rightarrow> enc_state res" where
  "enc_loop [] st = ok st"
| "enc_loop (i # is) (retval, outpos, bits, acc) =
     rbind (enc_drain (retval, outpos, bits + 8, enc_shift acc i))
       (enc_loop is)"

fun enc_flush :: "enc_state \<Rightarrow> string res" where
  "enc_flush (retval, outpos, bits, acc) =
     (if 0 < bits then
        put_char outpos (enc_tail_char bits acc) retval
      else ok retval)"

definition max_bindata :: nat where
  "max_bindata = ((2 ^ 64 - 1) div 4) * 3"

definition base64_encode_bytes :: "8 word list \<Rightarrow> string res" where
  "base64_encode_bytes bindata =
     (if max_bindata < length bindata then raise Length_error
      else rbind (enc_loop bindata
          (replicate (((length bindata + 2) div 3) * 4) (CHR ''=''), 0, 0, 0)) enc_flush)"

text \<open>
  The \<open>std::string\<close> overload copies into a \<open>basic_string<unsigned char>\<close> with an \<open>int\<close> index,
  which overflows on strings longer than \<open>INT_MAX\<close>.
\<close>

definition byte_of_char :: "char \<Rightarrow> 8 word" where
  "byte_of_char c = word_of_nat (of_char c)"

definition base64_encode :: "string \<Rightarrow> string res" where
  "base64_encode bindata =
     (if 2147483647 < length bindata then raise Undefined_behaviour
      else base64_encode_bytes (map byte_of_char bindata))"

section \<open>The decoder\<close>

definition reverse_table :: "nat list" where
  "reverse_table =
    [64, 64, 64, 64, 64, 64, 64, 64, 64, 64, 64, 64, 64, 64, 64, 64,
     64, 64, 64, 64, 64, 64, 64, 64, 64, 64, 64, 64, 64, 64, 64, 64,
     64, 64, 64, 64, 64, 64, 64, 64, 64, 64, 64, 62, 64, 64, 64, 63,
     52, 53, 54, 55, 56, 57, 58, 59, 60, 61, 64, 64, 64, 64, 64, 64,
     64, 0,  1,  2,  3,  4,  5,  6,  7,  8,  9,  10, 11, 12, 13, 14,
     15, 16, 17, 18, 19, 20, 21, 22, 23, 24, 25, 64, 64, 64, 64, 64,
     64, 26, 27, 28, 29, 30, 31, 32, 33, 34, 35, 36, 37, 38, 39, 40,
     41, 42, 43, 44, 45, 46, 47, 48, 49, 50, 51, 64, 64, 64, 64, 64]"

text \<open>\<open>(accumulator << 6) | reverse_table[c]\<close> and \<open>(accumulator >> bits) & 0xFFu\<close>.\<close>

definition dec_shift :: "32 word \<Rightarrow> nat \<Rightarrow> 32 word" where
  "dec_shift acc v = push_bit 6 acc OR word_of_nat v"

definition dec_char :: "nat \<Rightarrow> 32 word \<Rightarrow> char" where
  "dec_char bits acc = char_of (unat (drop_bit bits acc AND 255))"

text \<open>\<open>char\<close> is signed on the target: a code above 127 is a negative \<open>char\<close>.\<close>

definition b64_value :: "char \<Rightarrow> nat option" where
  "b64_value c =
     (if 127 < (of_char c :: nat) \<or> 63 < reverse_table ! of_char c then None
      else Some (reverse_table ! of_char c))"

fun dec_loop :: "string \<Rightarrow> string \<times> nat \<times> 32 word \<Rightarrow> string res" where
  "dec_loop [] (ret_val, bits, acc) = ok ret_val"
| "dec_loop (c # cs) (ret_val, bits, acc) =
     (if isspace c \<or> c = CHR ''='' then dec_loop cs (ret_val, bits, acc)
      else case b64_value c of
        None \<Rightarrow> raise Invalid_argument
      | Some v \<Rightarrow>
          let acc' = dec_shift acc v; bits' = bits + 6 in
          if 8 \<le> bits'
          then dec_loop cs
            (ret_val @ [dec_char (bits' - 8) acc'], bits' - 8, acc')
          else dec_loop cs (ret_val, bits', acc'))"

definition base64_decode :: "string \<Rightarrow> string res" where
  "base64_decode asc_data = dec_loop asc_data ([], 0, 0)"

section \<open>The reference encoding\<close>

definition b64_char :: "8 word \<Rightarrow> char" where
  "b64_char v = b64_table ! unat v"

text \<open>The four six-bit groups of three bytes.\<close>

definition sextet_1 :: "8 word \<Rightarrow> 8 word" where
  "sextet_1 a = drop_bit 2 a"

definition sextet_2 :: "8 word \<Rightarrow> 8 word \<Rightarrow> 8 word" where
  "sextet_2 a b = push_bit 4 (a AND 3) OR drop_bit 4 b"

definition sextet_3 :: "8 word \<Rightarrow> 8 word \<Rightarrow> 8 word" where
  "sextet_3 b c = push_bit 2 (b AND 15) OR drop_bit 6 c"

definition sextet_4 :: "8 word \<Rightarrow> 8 word" where
  "sextet_4 c = c AND 63"

lemmas sextet_defs = sextet_1_def sextet_2_def sextet_3_def sextet_4_def

fun b64_spec :: "8 word list \<Rightarrow> string" where
  "b64_spec [] = []"
| "b64_spec [a] = [b64_char (sextet_1 a), b64_char (sextet_2 a 0), CHR ''='', CHR ''='']"
| "b64_spec [a, b] =
     [b64_char (sextet_1 a), b64_char (sextet_2 a b), b64_char (sextet_3 b 0), CHR ''='']"
| "b64_spec (a # b # c # rest) =
     [b64_char (sextet_1 a), b64_char (sextet_2 a b), b64_char (sextet_3 b c),
      b64_char (sextet_4 c)] @ b64_spec rest"

lemma length_b64_spec: "length (b64_spec xs) = ((length xs + 2) div 3) * 4"
  by (induction xs rule: b64_spec.induct) (simp_all, presburger?)

section \<open>Bit identities\<close>

lemma masks32:
  "(3 :: 32 word) = mask 2" "(15 :: 32 word) = mask 4"
  "(63 :: 32 word) = mask 6" "(255 :: 32 word) = mask 8"
  by (simp_all add: mask_eq_exp_minus_1)

lemma masks8:
  "(3 :: 8 word) = mask 2" "(15 :: 8 word) = mask 4" "(63 :: 8 word) = mask 6"
  by (simp_all add: mask_eq_exp_minus_1)

lemma bit8_less: "bit (a :: 8 word) n \<Longrightarrow> n < 8"
  using bit_imp_le_length [of a n] by simp

lemma bit8_high: "8 \<le> n \<Longrightarrow> \<not> bit (a :: 8 word) n"
  using bit8_less by fastforce

lemma add_sub_nat:
  "Suc (Suc (n - 2)) = (if n < 2 then 2 else n)"
  "4 + (n - 4) = (if n < 4 then 4 else n)"
  "6 + (n - 6) = (if n < 6 then 6 else n)"
  for n :: nat
  by auto

lemmas bits8 = bit_simps bit8_high add_sub_nat

lemma enc_bits:
  fixes acc :: "32 word" and a b c :: "8 word"
  shows "drop_bit 2 (push_bit 8 acc OR ucast a) AND 63 = (ucast (sextet_1 a) :: 32 word)"
    and "drop_bit 4 (push_bit 8 (push_bit 8 acc OR ucast a) OR ucast b) AND 63
      = (ucast (sextet_2 a b) :: 32 word)"
    and "drop_bit 6 (push_bit 8 (push_bit 8 acc OR ucast b) OR ucast c) AND 63
      = (ucast (sextet_3 b c) :: 32 word)"
    and "(push_bit 8 acc OR ucast c) AND 63 = (ucast (sextet_4 c) :: 32 word)"
    and "push_bit 4 (push_bit 8 acc OR ucast a) AND 63 = (ucast (sextet_2 a 0) :: 32 word)"
    and "push_bit 2 (push_bit 8 acc OR ucast b) AND 63 = (ucast (sextet_3 b 0) :: 32 word)"
  unfolding masks32 masks8 sextet_defs
  by (rule bit_word_eqI; auto simp: bits8 dest: bit8_less)+

lemma ucast_and_255: "ucast (a :: 8 word) AND 255 = (ucast a :: 32 word)"
  unfolding masks32 by (rule bit_word_eqI) (auto simp: bits8 dest: bit8_less)

lemma dec_bits:
  fixes acc :: "32 word" and a b c :: "8 word"
  shows "drop_bit 4 (push_bit 6 (push_bit 6 acc OR ucast (sextet_1 a)) OR ucast (sextet_2 a b)) AND 255
      = (ucast a :: 32 word)"
    and "drop_bit 2 (push_bit 6 (push_bit 6 acc OR ucast (sextet_2 a b)) OR ucast (sextet_3 b c)) AND 255
      = (ucast b :: 32 word)"
    and "(push_bit 6 (push_bit 6 acc OR ucast (sextet_3 b c)) OR ucast (sextet_4 c)) AND 255
      = (ucast c :: 32 word)"
  unfolding masks32 masks8 sextet_defs
  by (rule bit_word_eqI; auto simp: bits8 dest: bit8_less)+

section \<open>The encoder computes the reference\<close>

lemma unat_ucast_8_32 [simp]: "unat (ucast (v :: 8 word) :: 32 word) = unat v"
  by transfer (simp add: take_bit_int_eq_self)

lemma enc_chars:
  fixes a b c :: "8 word"
  shows "enc_char 2 (enc_shift acc a) = b64_char (sextet_1 a)"
    and "enc_char 4 (enc_shift (enc_shift acc a) b) = b64_char (sextet_2 a b)"
    and "enc_char 6 (enc_shift (enc_shift acc b) c) = b64_char (sextet_3 b c)"
    and "enc_char 0 (enc_shift acc c) = b64_char (sextet_4 c)"
    and "enc_tail_char 2 (enc_shift acc a) = b64_char (sextet_2 a 0)"
    and "enc_tail_char 4 (enc_shift acc b) = b64_char (sextet_3 b 0)"
proof -
  have nums: "6 - 2 = (4 :: nat)" "6 - 4 = (2 :: nat)" by simp_all
  show "enc_char 2 (enc_shift acc a) = b64_char (sextet_1 a)"
    "enc_char 4 (enc_shift (enc_shift acc a) b) = b64_char (sextet_2 a b)"
    "enc_char 6 (enc_shift (enc_shift acc b) c) = b64_char (sextet_3 b c)"
    "enc_char 0 (enc_shift acc c) = b64_char (sextet_4 c)"
    "enc_tail_char 2 (enc_shift acc a) = b64_char (sextet_2 a 0)"
    "enc_tail_char 4 (enc_shift acc b) = b64_char (sextet_3 b 0)"
    unfolding enc_tail_char_def nums enc_char_def enc_shift_def b64_char_def ucast_and_255 enc_bits
      drop_bit_0 id_apply unat_ucast_8_32
    by (rule refl)+
qed

lemma enc_drain_stop: "bits < 6 \<Longrightarrow> enc_drain (buf, pos, bits, acc) = ok (buf, pos, bits, acc)"
  by (simp add: enc_drain.simps)

lemma enc_drain_out:
  "6 \<le> bits \<Longrightarrow> 0 < k \<Longrightarrow>
   enc_drain (out @ replicate k e, length out, bits, acc) =
   enc_drain ((out @ [enc_char (bits - 6) acc]) @ replicate (k - 1) e,
     length (out @ [enc_char (bits - 6) acc]), bits - 6, acc)"
  by (cases k) (simp_all add: enc_drain.simps [of _ _ bits] put_char_def list_update_append)

lemma put_char_out:
  "0 < k \<Longrightarrow> put_char (length out) x (out @ replicate k e) = ok ((out @ [x]) @ replicate (k - 1) e)"
  by (cases k) (simp_all add: put_char_def list_update_append)

lemmas enc_step = enc_drain_out enc_drain_stop put_char_out enc_chars

text \<open>Three bytes become four characters and leave no bits pending; the high bits of the
  accumulator are arbitrary.\<close>

lemma enc_loop_block:
  assumes "4 \<le> k"
  shows "enc_loop (a # b # c # rest) (out @ replicate k e, length out, 0, acc) =
    enc_loop rest ((out @ take 4 (b64_spec (a # b # c # rest))) @ replicate (k - 4) e,
      length (out @ take 4 (b64_spec (a # b # c # rest))), 0,
      enc_shift (enc_shift (enc_shift acc a) b) c)"
  using assms by (simp add: enc_step del: append_assoc length_append) (simp add: numeral_eq_Suc)

lemma enc_loop_correct:
  "rbind (enc_loop xs (out @ replicate (length (b64_spec xs)) (CHR ''=''), length out, 0, acc)) enc_flush
   = ok (out @ b64_spec xs)"
proof (induction xs arbitrary: out acc rule: b64_spec.induct)
  case 1
  then show ?case by simp
next
  case (2 a)
  have len: "length (b64_spec [a]) = 4" by simp
  show ?case
    unfolding len by (simp add: enc_step del: append_assoc length_append, (simp add: numeral_eq_Suc)?)
next
  case (3 a b)
  have len: "length (b64_spec [a, b]) = 4" by simp
  show ?case
    unfolding len by (simp add: enc_step del: append_assoc length_append, (simp add: numeral_eq_Suc)?)
next
  case (4 a b c rest)
  have len: "length (b64_spec (a # b # c # rest)) = 4 + length (b64_spec rest)" by simp
  have spec: "take 4 (b64_spec (a # b # c # rest)) @ b64_spec rest = b64_spec (a # b # c # rest)"
    by (simp add: numeral_eq_Suc)
  show ?case
    unfolding len using "4.IH" [of "out @ take 4 (b64_spec (a # b # c # rest))"] spec
    by (simp only: enc_loop_block le_add1 diff_add_inverse append_assoc)
qed

section \<open>Decoding inverts the reference\<close>

lemma sextet_less: "(\<And>n. n < 8 \<Longrightarrow> bit v n = bit (take_bit 6 v) n) \<Longrightarrow> unat (v :: 8 word) < 64"
proof -
  assume "\<And>n. n < 8 \<Longrightarrow> bit v n = bit (take_bit 6 v) n"
  then have "v = take_bit 6 v" by (intro bit_word_eqI) simp
  then have "unat v = take_bit 6 (unat v)" by (metis unsigned_take_bit_eq)
  also have "\<dots> < 2 ^ 6" by (rule take_bit_nat_less_exp)
  finally show ?thesis by simp
qed

lemma sextets:
  "unat (sextet_1 a) < 64" "unat (sextet_2 a b) < 64" "unat (sextet_3 b c) < 64"
  "unat (sextet_4 c) < 64"
  unfolding masks8 sextet_defs by (rule sextet_less; auto simp: bits8 dest: bit8_less)+

lemma table_values:
  "list_all (\<lambda>n. b64_value (b64_table ! n) = Some n \<and> \<not> isspace (b64_table ! n)
     \<and> b64_table ! n \<noteq> CHR ''='') [0..<64]"
  by code_simp

lemma table_value:
  "unat v < 64 \<Longrightarrow> b64_value (b64_char v) = Some (unat v)"
  "unat v < 64 \<Longrightarrow> \<not> isspace (b64_char v)"
  "unat v < 64 \<Longrightarrow> b64_char v \<noteq> CHR ''=''"
  using table_values unfolding b64_char_def list_all_iff by auto

lemma dec_step:
  "unat v < 64 \<Longrightarrow> dec_loop (b64_char v # cs) (r, bits, acc) =
     (if 8 \<le> bits + 6
      then dec_loop cs (r @ [dec_char (bits + 6 - 8) (dec_shift acc (unat v))], bits + 6 - 8,
        dec_shift acc (unat v))
      else dec_loop cs (r, bits + 6, dec_shift acc (unat v)))"
  by (simp add: table_value Let_def)

lemma dec_skip: "dec_loop (CHR ''='' # cs) st = dec_loop cs st"
  by (cases st) simp

lemma word_of_nat_unat_8_32: "word_of_nat (unat (v :: 8 word)) = (ucast v :: 32 word)"
  by transfer simp

lemma dec_chars:
  fixes a b c :: "8 word"
  shows "dec_char 4 (dec_shift (dec_shift acc (unat (sextet_1 a))) (unat (sextet_2 a b)))
      = char_of (unat a)"
    and "dec_char 2 (dec_shift (dec_shift acc (unat (sextet_2 a b))) (unat (sextet_3 b c)))
      = char_of (unat b)"
    and "dec_char 0 (dec_shift (dec_shift acc (unat (sextet_3 b c))) (unat (sextet_4 c)))
      = char_of (unat c)"
  unfolding dec_char_def dec_shift_def word_of_nat_unat_8_32 dec_bits drop_bit_0 id_apply
    unat_ucast_8_32
  by (rule refl)+

lemma dec_loop_spec:
  "dec_loop (b64_spec xs) (r, 0, acc) = ok (r @ map (\<lambda>b. char_of (unat b)) xs)"
  by (induction xs arbitrary: r acc rule: b64_spec.induct)
    (simp_all add: dec_step sextets dec_chars dec_skip del: dec_loop.simps(2))

lemma encode_bytes_spec:
  "length bindata \<le> max_bindata \<Longrightarrow> base64_encode_bytes bindata = ok (b64_spec bindata)"
  using enc_loop_correct [of bindata "[]" 0] length_b64_spec [of bindata]
  by (simp add: base64_encode_bytes_def)

lemma encode_spec:
  "length s \<le> 2147483647 \<Longrightarrow> base64_encode s = ok (b64_spec (map byte_of_char s))"
  by (simp add: base64_encode_def encode_bytes_spec max_bindata_def)

section \<open>Properties\<close>



text \<open>
  C13. Decoding inverts encoding: whatever \<open>base64_encode\<close> returns for a string, \<open>base64_decode\<close>
  maps back to that string.
\<close>

theorem base64_roundtrip:
  "base64_encode s = ok e \<Longrightarrow> base64_decode e = ok s"
proof -
  assume enc: "base64_encode s = ok e"
  then have "length s \<le> 2147483647" by (simp add: base64_encode_def split: if_splits)
  with enc have "e = b64_spec (map byte_of_char s)" by (simp add: encode_spec)
  then show ?thesis
    using dec_loop_spec [of "map byte_of_char s" "[]" 0]
    by (simp add: base64_decode_def byte_of_char_def o_def unat_of_nat)
qed

theorem base64_roundtrip_witness: "base64_decode ''TWFu'' = ok ''Man''"
proof -
  have "base64_encode ''Man'' = ok ''TWFu''"
    by (simp add: encode_spec byte_of_char_def b64_char_def b64_table_def sextet_defs)
  then show ?thesis by (rule base64_roundtrip)
qed

end
