(* ===== verification/Random_Hmac.thy ===== *)
theory Random_Hmac
  imports Prelude
begin

text \<open>
  The random functions of common/json_utils.cpp and \<open>hmac256_encode\<close> of common/crypto.cpp. The
  generator of the C++ library and the HMAC of OpenSSL are parameters: a draw gives a number and
  the next state of the generator; an HMAC context goes through the calls of the code.
\<close>

section \<open>Random strings\<close>

record 'g random =
  uniform_int :: "nat \<Rightarrow> nat \<Rightarrow> 'g \<Rightarrow> nat \<times> 'g"

text \<open>\<open>std::uniform_int_distribution\<close> draws from the closed interval.\<close>

definition draws_in_range :: "'g random \<Rightarrow> bool" where
  "draws_in_range rnd \<longleftrightarrow> (\<forall>a b g. a \<le> b \<longrightarrow> a \<le> fst (uniform_int rnd a b g) \<and> fst (uniform_int rnd a b g) \<le> b)"

definition get_random_integer :: "'g random \<Rightarrow> 'g \<Rightarrow> nat \<times> 'g" where
  "get_random_integer rnd gen = uniform_int rnd 1 50 gen"

definition all_alphas :: string where
  "all_alphas = ''abcdefghijklmnopqrstuvwxyzABCDEFGHIJKLMNOPQRSTUVWXYZ_''"

text \<open>The literal ends with a null character, which may be read; what lies behind it may not.\<close>

definition get_random_char :: "'g random \<Rightarrow> 'g \<Rightarrow> (char \<times> 'g) res" where
  "get_random_char rnd gen = (case uniform_int rnd 0 52 gen of (i, gen') \<Rightarrow>
     if i < length all_alphas then ok (all_alphas ! i, gen')
     else if i = length all_alphas then ok (CHR 0x00, gen')
     else raise Undefined_behaviour)"

fun random_loop :: "'g random \<Rightarrow> nat \<Rightarrow> string \<Rightarrow> 'g \<Rightarrow> (string \<times> 'g) res" where
  "random_loop rnd 0 result gen = ok (result, gen)"
| "random_loop rnd (Suc n) result gen =
     rbind (get_random_char rnd gen) (\<lambda>(c, gen'). random_loop rnd n (result @ [c]) gen')"

definition get_random_string :: "'g random \<Rightarrow> nat \<Rightarrow> 'g \<Rightarrow> (string \<times> 'g) res" where
  "get_random_string rnd n gen = random_loop rnd n [] gen"

lemma length_all_alphas: "length all_alphas = 53"
  by (simp add: all_alphas_def)

lemma get_random_char_ok:
  assumes "draws_in_range rnd"
  shows "\<exists>c gen'. get_random_char rnd gen = ok (c, gen') \<and> c \<in> set all_alphas"
proof -
  obtain i gen' where d: "uniform_int rnd 0 52 gen = (i, gen')" by fastforce
  with assms have "i \<le> 52" unfolding draws_in_range_def by (metis fst_conv le0)
  then have "i < length all_alphas" by (simp add: length_all_alphas)
  with d show ?thesis by (simp add: get_random_char_def)
qed

lemma random_loop_ok:
  assumes "draws_in_range rnd"
  shows "\<exists>s gen'. random_loop rnd n result gen = ok (result @ s, gen') \<and> length s = n \<and> set s \<subseteq> set all_alphas"
proof (induction n arbitrary: result gen)
  case (Suc n)
  obtain c g where c: "get_random_char rnd gen = ok (c, g)" "c \<in> set all_alphas"
    using get_random_char_ok [OF assms] by blast
  obtain s g' where "random_loop rnd n (result @ [c]) g = ok ((result @ [c]) @ s, g')" "length s = n"
    "set s \<subseteq> set all_alphas" using Suc.IH by blast
  with c show ?case by (intro exI [of _ "c # s"] exI [of _ g']) simp
qed simp

section \<open>HMAC\<close>

record 'c hmac_api =
  hmac_new :: 'c
  hmac_init_ex :: "string \<Rightarrow> 'c \<Rightarrow> 'c"
  hmac_init :: "string \<Rightarrow> 'c \<Rightarrow> 'c"
  hmac_update :: "string \<Rightarrow> 'c \<Rightarrow> 'c"
  hmac_final :: "'c \<Rightarrow> string"

definition hmac256_encode :: "'c hmac_api \<Rightarrow> string \<Rightarrow> string \<Rightarrow> string" where
  "hmac256_encode api data key = hmac_final api (hmac_update api data
     (hmac_init api key (hmac_init_ex api key (hmac_new api))))"

section \<open>Properties\<close>

text \<open>
  A random string has the requested length and only characters of the alphabet: the largest
  number the distribution draws is the last index of the table, so that neither the terminator nor
  anything behind it is read.
\<close>

theorem get_random_string_alphabet:
  assumes "draws_in_range rnd"
  shows "\<exists>s gen'. get_random_string rnd n gen = ok (s, gen') \<and> length s = n \<and> set s \<subseteq> set all_alphas"
  using random_loop_ok [OF assms, of n "[]" gen] by (simp add: get_random_string_def)

theorem get_random_string_alphabet_witness:
  "\<exists>s gen'. get_random_string \<lparr>uniform_int = (\<lambda>a b g. (b, g + 1))\<rparr> 4 (0 :: nat) = ok (s, gen') \<and> length s = 4"
proof -
  have "draws_in_range \<lparr>uniform_int = (\<lambda>a b g. (b, g + 1 :: nat))\<rparr>" by (simp add: draws_in_range_def)
  from get_random_string_alphabet [OF this, of 4 0] show ?thesis by blast
qed

text \<open>
  \<open>hmac256_encode\<close> computes the HMAC of its data under its key, once, although it initialises the
  context twice: initialising restarts a context, and finishing it yields the HMAC of what was
  added since.
\<close>

theorem hmac256_encode_correct:
  assumes "\<And>k c d. hmac_final api (hmac_update api d (hmac_init api k c)) = hmac_sha256 k d"
  shows "hmac256_encode api data key = hmac_sha256 key data"
  using assms by (simp add: hmac256_encode_def)

theorem hmac256_encode_correct_witness:
  "hmac256_encode \<lparr>hmac_new = [], hmac_init_ex = (\<lambda>k _. k), hmac_init = (\<lambda>k _. k),
     hmac_update = (\<lambda>d c. c @ d), hmac_final = rev\<rparr> ''data'' ''key'' = rev (''key'' @ ''data'')"
  by (rule hmac256_encode_correct) simp

end
