(* ===== verification/Url.thy ===== *)
theory Url
  imports Prelude "HOL-Library.Sublist"
begin

text \<open>
  The string functions of binance_orders/src/session.cpp: percent-decoding of request targets,
  splitting on a delimiter, query strings, and the table names derived from account aliases.
  A \<open>boost::string_view\<close> is the character list it views; its \<open>find\<close> is the one of
  \<open>std::string_view\<close>. The position \<open>from_pos\<close> of the splitting loop is represented by the
  suffix that starts there.
\<close>

section \<open>decode_url\<close>

definition hex_digit :: "char \<Rightarrow> nat" where
  "hex_digit c =
     (let n = of_char c in
      if 48 \<le> n \<and> n \<le> 57 then n - 48
      else if 65 \<le> n \<and> n \<le> 70 then n - 65 + 10
      else if 97 \<le> n \<and> n \<le> 102 then n - 97 + 10
      else 0)"

text \<open>The two characters after a percent sign are read without checking that they exist.\<close>

fun decode_url :: "string \<Rightarrow> string res" where
  "decode_url [] = ok []"
| "decode_url (ch # rest) =
     (if ch \<noteq> CHR ''%'' then rbind (decode_url rest) (\<lambda>src. ok (ch # src))
      else case rest of
        c1 # c2 # rest' \<Rightarrow>
          rbind (decode_url rest') (\<lambda>src. ok (char_of (hex_digit c1 * 16 + hex_digit c2) # src))
      | _ \<Rightarrow> raise Undefined_behaviour)"

text \<open>The reference encoder: any set of characters may be kept, as long as the percent sign is
  escaped.\<close>

definition hex_char :: "nat \<Rightarrow> char" where
  "hex_char n = (if n < 10 then char_of (48 + n) else char_of (55 + n))"

fun url_encode :: "(char \<Rightarrow> bool) \<Rightarrow> string \<Rightarrow> string" where
  "url_encode keep [] = []"
| "url_encode keep (c # cs) =
     (if keep c then c # url_encode keep cs
      else CHR ''%'' # hex_char (of_char c div 16) # hex_char (of_char c mod 16)
        # url_encode keep cs)"

lemma hex_digit_char: "n < 16 \<Longrightarrow> hex_digit (hex_char n) = n"
  by (auto simp: hex_digit_def hex_char_def Let_def)

lemma decode_encode:
  assumes "\<not> keep (CHR ''%'')"
  shows "decode_url (url_encode keep s) = ok s"
proof (induction s)
  case (Cons c cs)
  have "(of_char c :: nat) div 16 < 16" using of_char_less_256 [of c] by linarith
  with Cons assms show ?case by (auto simp: hex_digit_char)
qed simp

text \<open>Every percent sign is followed by two more characters, which are consumed with it.\<close>

fun well_escaped :: "string \<Rightarrow> bool" where
  "well_escaped [] = True"
| "well_escaped (ch # rest) =
     (if ch \<noteq> CHR ''%'' then well_escaped rest
      else case rest of c1 # c2 # rest' \<Rightarrow> well_escaped rest' | _ \<Rightarrow> False)"

lemma decode_url_total: "well_escaped s \<Longrightarrow> \<exists>r. decode_url s = ok r \<and> length r \<le> length s"
proof (induction s rule: well_escaped.induct)
  case (2 ch rest)
  show ?case
  proof (cases "ch = CHR ''%''")
    case True
    with "2.prems" obtain c1 c2 rest' where "rest = c1 # c2 # rest'"
      by (auto split: list.splits)
    with True 2 show ?thesis by fastforce
  next
    case False
    with 2 show ?thesis by fastforce
  qed
qed simp

lemma decode_url_overrun: "\<not> well_escaped s \<Longrightarrow> decode_url s = raise Undefined_behaviour"
  by (induction s rule: well_escaped.induct) (auto split: if_splits list.splits)

lemma decode_url_plain: "CHR ''%'' \<notin> set s \<Longrightarrow> decode_url s = ok s"
  by (induction s) auto

section \<open>split_string_view\<close>

fun sv_find :: "string \<Rightarrow> string \<Rightarrow> nat option" where
  "sv_find d [] = (if d = [] then Some 0 else None)"
| "sv_find d (x # xs) = (if prefix d (x # xs) then Some 0 else map_option Suc (sv_find d xs))"

text \<open>\<open>None\<close>: the loop does not end.\<close>

partial_function (option) split_loop ::
  "string \<Rightarrow> string \<Rightarrow> string list \<Rightarrow> string list option" where
  "split_loop delim rest result =
     (case sv_find delim rest of
        None \<Rightarrow> Some (if rest \<noteq> [] then result @ [rest] else result)
      | Some index \<Rightarrow>
          split_loop delim (drop (index + length delim) rest) (result @ [take index rest]))"

definition split_string_view :: "string \<Rightarrow> string \<Rightarrow> string list res" where
  "split_string_view str delim =
     (case sv_find delim str of
        None \<Rightarrow> ok [str]
      | Some _ \<Rightarrow> (case split_loop delim str [] of None \<Rightarrow> raise Diverges | Some r \<Rightarrow> ok r))"

lemma sv_find_Some:
  "sv_find d s = Some k \<Longrightarrow> k + length d \<le> length s \<and> s = take k s @ d @ drop (k + length d) s"
proof (induction s arbitrary: k)
  case (Cons x xs)
  show ?case
  proof (cases "prefix d (x # xs)")
    case True
    with Cons.prems show ?thesis
      by (auto simp: prefix_def dest: arg_cong [of _ _ length])
  next
    case False
    with Cons.prems obtain j where "sv_find d xs = Some j" "k = Suc j" by auto
    with Cons.IH show ?thesis by simp
  qed
qed (simp split: if_splits)

lemma sv_find_None: "sv_find d s = None \<longleftrightarrow> \<not> sublist d s"
  by (induction s) (auto simp: sublist_Cons_right)

text \<open>The part before the first occurrence does not contain the delimiter.\<close>

lemma sv_find_first: "sv_find d s = Some k \<Longrightarrow> d \<noteq> [] \<Longrightarrow> \<not> sublist d (take k s)"
proof (induction s arbitrary: k)
  case (Cons x xs)
  show ?case
  proof (cases "prefix d (x # xs)")
    case True
    with Cons.prems show ?thesis by simp
  next
    case False
    with Cons.prems obtain j where j: "sv_find d xs = Some j" "k = Suc j" by auto
    have "\<not> prefix d (x # take j xs)"
      using False by (metis prefix_order.trans take_Suc_Cons take_is_prefix)
    with j Cons show ?thesis by (simp add: sublist_Cons_right)
  qed
qed (simp split: if_splits)

text \<open>The pieces joined with the delimiter.\<close>

fun join :: "string \<Rightarrow> string list \<Rightarrow> string" where
  "join d [] = []"
| "join d [x] = x"
| "join d (x # y # zs) = x @ d @ join d (y # zs)"

text \<open>What the loop adds to its result for the rest of the input.\<close>

definition split_spec :: "string \<Rightarrow> string \<Rightarrow> string list \<Rightarrow> bool" where
  "split_spec d s pieces \<longleftrightarrow> (\<forall>p\<in>set pieces. \<not> sublist d p) \<and>
     (if pieces = [] then s = [] else s = join d pieces \<or> s = join d pieces @ d)"

lemma join_Cons: "zs \<noteq> [] \<Longrightarrow> join d (x # zs) = x @ d @ join d zs"
  by (cases zs) auto

lemma split_loop_terminates:
  assumes "d \<noteq> []"
  shows "\<exists>pieces. split_loop d s result = Some (result @ pieces) \<and> split_spec d s pieces"
proof (induction "length s" arbitrary: s result rule: less_induct)
  case less
  show ?case
  proof (cases "sv_find d s")
    case None
    then have "\<not> sublist d s" using sv_find_None by blast
    with None show ?thesis
      by (intro exI [of _ "if s \<noteq> [] then [s] else []"])
        (auto simp: split_loop.simps [of d s] split_spec_def)
  next
    case (Some k)
    note k = sv_find_Some [OF Some] sv_find_first [OF Some assms]
    let ?rest = "drop (k + length d) s"
    have "length ?rest < length s" using k(1) assms by (cases d) auto
    from less [OF this, of "result @ [take k s]"] obtain pieces where
      p: "split_loop d ?rest (result @ [take k s]) = Some ((result @ [take k s]) @ pieces)"
        "split_spec d ?rest pieces" by blast
    have "split_spec d s (take k s # pieces)"
      using p(2) k by (cases "pieces = []") (auto simp: split_spec_def join_Cons)
    with Some p(1) show ?thesis
      by (intro exI [of _ "take k s # pieces"]) (simp add: split_loop.simps [of d s])
  qed
qed

lemma split_string_view_spec:
  assumes "d \<noteq> []"
  shows "\<exists>pieces. split_string_view s d = ok pieces \<and> pieces \<noteq> [] \<and> split_spec d s pieces"
proof (cases "sv_find d s")
  case None
  then have "\<not> sublist d s" using sv_find_None by blast
  with None show ?thesis
    by (intro exI [of _ "[s]"]) (simp add: split_string_view_def split_spec_def)
next
  case (Some k)
  from split_loop_terminates [OF assms, of s "[]"] obtain pieces where
    p: "split_loop d s [] = Some pieces" "split_spec d s pieces" by auto
  have "s \<noteq> []" using sv_find_Some [OF Some] assms by auto
  with p(2) have "pieces \<noteq> []" by (auto simp: split_spec_def)
  with Some p show ?thesis by (simp add: split_string_view_def)
qed

lemma split_no_delim: "\<not> sublist d s \<Longrightarrow> split_string_view s d = ok [s]"
  using sv_find_None [of d s] by (simp add: split_string_view_def)

section \<open>split_optional_queries\<close>

text \<open>\<open>std::map::emplace\<close> keeps the entry that is already there.\<close>

definition emplace :: "'k \<Rightarrow> 'v \<Rightarrow> ('k \<rightharpoonup> 'v) \<Rightarrow> ('k \<rightharpoonup> 'v)" where
  "emplace k v m = (case m k of None \<Rightarrow> m(k \<mapsto> v) | Some _ \<Rightarrow> m)"

type_synonym url_query_t = "string \<rightharpoonup> string"

fun add_queries :: "string list \<Rightarrow> url_query_t \<Rightarrow> url_query_t res" where
  "add_queries [] result = ok result"
| "add_queries (q # qs) result =
     rbind (split_string_view q ''='') (\<lambda>split.
       if length split < 2 then add_queries qs result
       else add_queries qs (emplace (split ! 0) (split ! 1) result))"

definition split_optional_queries :: "string \<Rightarrow> url_query_t res" where
  "split_optional_queries optional_query =
     (if optional_query \<noteq> [] then
        rbind (split_string_view optional_query ''&'') (\<lambda>queries. add_queries queries Map.empty)
      else ok Map.empty)"

lemma add_queries_total: "\<exists>r. add_queries qs m = ok r"
proof (induction qs arbitrary: m)
  case (Cons q qs)
  obtain ps where "split_string_view q ''='' = ok ps"
    using split_string_view_spec [of "''=''" q] by auto
  with Cons show ?case by simp
qed simp

lemma split_optional_queries_total: "\<exists>r. split_optional_queries q = ok r"
  using split_string_view_spec [of "''&''" q] add_queries_total
  by (auto simp: split_optional_queries_def)

section \<open>get_alphanum_tablename\<close>

definition get_alphanum_tablename :: "string \<Rightarrow> string" where
  "get_alphanum_tablename str = map tolower (filter isalnum str)"

lemma tablename_chars:
  "c \<in> set (get_alphanum_tablename s) \<Longrightarrow> isalnum c \<and> \<not> is_upper c"
  by (auto simp: get_alphanum_tablename_def)

lemma tablename_idem: "get_alphanum_tablename (get_alphanum_tablename s) = get_alphanum_tablename s"
proof -
  have "filter isalnum (map tolower (filter isalnum s)) = map tolower (filter isalnum s)"
    by (rule filter_True) auto
  then show ?thesis by (simp add: get_alphanum_tablename_def o_def)
qed

section \<open>Properties\<close>

text \<open>
  C30. Percent-decoding inverts every percent-encoding that escapes the percent sign itself.
\<close>

theorem decode_url_inverts_encoding:
  "\<not> keep (CHR ''%'') \<Longrightarrow> decode_url (url_encode keep s) = ok s"
  by (rule decode_encode)

theorem decode_url_inverts_encoding_witness: "decode_url ''a%20b%25'' = ok ''a b%''"
proof -
  have "\<not> isalnum (CHR ''%'')" by (simp add: char_simps)
  moreover have "url_encode isalnum ''a b%'' = ''a%20b%25''" by code_simp
  ultimately show ?thesis
    using decode_url_inverts_encoding [where keep = isalnum and s = "''a b%''"] by simp
qed

text \<open>
  C31. \<open>decode_url\<close> returns exactly on targets in which every percent sign is followed by two
  characters, and never lengthens them; on every other target it reads past the end.
\<close>

theorem decode_url_defined_iff:
  "(\<exists>r. decode_url s = ok r \<and> length r \<le> length s) = well_escaped s \<and>
   (decode_url s = raise Undefined_behaviour) = (\<not> well_escaped s)"
  using decode_url_total [of s] decode_url_overrun [of s] by (cases "well_escaped s") auto

text \<open>
  Splitting on a non-empty delimiter terminates and yields at least one piece (so the
  unchecked \<open>split[0]\<close> of the router is in range); no piece contains the delimiter, and joining
  the pieces gives the input back up to one trailing delimiter.
\<close>

theorem split_string_view_correct:
  "d \<noteq> [] \<Longrightarrow> \<exists>pieces. split_string_view s d = ok pieces \<and> pieces \<noteq> [] \<and>
     (\<forall>p\<in>set pieces. \<not> sublist d p) \<and> (s = join d pieces \<or> s = join d pieces @ d)"
  using split_string_view_spec [of d s] by (auto simp: split_spec_def)

theorem split_string_view_correct_witness:
  "\<exists>pieces. split_string_view ''k=v='' ''='' = ok pieces \<and> pieces \<noteq> [] \<and>
     (\<forall>p\<in>set pieces. \<not> sublist ''='' p) \<and>
     (''k=v='' = join ''='' pieces \<or> ''k=v='' = join ''='' pieces @ ''='')"
  by (rule split_string_view_correct) simp

end
