(* ===== verification/Json.thy ===== *)
theory Json
  imports Prelude
begin

text \<open>
  JSON values as the sources use them through nlohmann::json, and common/json_utils.hpp/.cpp on
  top of it. The parser is code outside the repository: it is a parameter \<open>parse\<close> of every
  definition that calls it (\<open>None\<close> is a \<open>parse_error\<close>). So is the double-precision arithmetic of
  the target, the record \<open>double_ops\<close> over an abstract type of doubles. What remains is the data
  model of JSON and the documented accessors: \<open>get<T>\<close> raises \<open>type_error\<close> on a value of another
  kind, \<open>at\<close> raises \<open>out_of_range\<close> on a missing key, \<open>find\<close> does not raise.
\<close>

section \<open>Values and accessors\<close>

datatype 'f json =
    J_null
  | J_bool bool
  | J_integer "64 word"
  | J_unsigned "64 word"
  | J_float 'f
  | J_string string
  | J_array "'f json list"
  | J_object "(string \<times> 'f json) list"

type_synonym 'f object_t = "(string \<times> 'f json) list"

record 'f double_ops =
  d_to_int64 :: "'f \<Rightarrow> 64 word"
  d_of_int64 :: "64 word \<Rightarrow> 'f"
  d_of_uint64 :: "64 word \<Rightarrow> 'f"
  d_to_string :: "'f \<Rightarrow> string"
  d_stod :: "string \<Rightarrow> 'f res"

definition get_object :: "'f json \<Rightarrow> 'f object_t res" where
  "get_object j = (case j of J_object m \<Rightarrow> ok m | _ \<Rightarrow> raise Json_type_error)"

definition get_array :: "'f json \<Rightarrow> 'f json list res" where
  "get_array j = (case j of J_array xs \<Rightarrow> ok xs | _ \<Rightarrow> raise Json_type_error)"

definition get_string :: "'f json \<Rightarrow> string res" where
  "get_string j = (case j of J_string s \<Rightarrow> ok s | _ \<Rightarrow> raise Json_type_error)"

definition get_boolean :: "'f json \<Rightarrow> bool res" where
  "get_boolean j = (case j of J_bool b \<Rightarrow> ok b | _ \<Rightarrow> raise Json_type_error)"

text \<open>\<open>get<number_integer_t>\<close> converts between the three kinds of numbers.\<close>

definition get_integer :: "'f double_ops \<Rightarrow> 'f json \<Rightarrow> 64 word res" where
  "get_integer d j = (case j of
     J_integer w \<Rightarrow> ok w
   | J_unsigned w \<Rightarrow> ok w
   | J_float x \<Rightarrow> ok (d_to_int64 d x)
   | _ \<Rightarrow> raise Json_type_error)"

definition get_float :: "'f double_ops \<Rightarrow> 'f json \<Rightarrow> 'f res" where
  "get_float d j = (case j of
     J_integer w \<Rightarrow> ok (d_of_int64 d w)
   | J_unsigned w \<Rightarrow> ok (d_of_uint64 d w)
   | J_float x \<Rightarrow> ok x
   | _ \<Rightarrow> raise Json_type_error)"

definition is_string :: "'f json \<Rightarrow> bool" where
  "is_string j = (case j of J_string _ \<Rightarrow> True | _ \<Rightarrow> False)"

definition is_number :: "'f json \<Rightarrow> bool" where
  "is_number j = (case j of J_integer _ \<Rightarrow> True | J_unsigned _ \<Rightarrow> True | J_float _ \<Rightarrow> True | _ \<Rightarrow> False)"

definition obj_at :: "'f object_t \<Rightarrow> string \<Rightarrow> 'f json res" where
  "obj_at m k = (case map_of m k of None \<Rightarrow> raise Json_out_of_range | Some v \<Rightarrow> ok v)"

definition parse_json :: "(string \<Rightarrow> 'f json option) \<Rightarrow> string \<Rightarrow> 'f json res" where
  "parse_json parse s = (case parse s of None \<Rightarrow> raise Json_parse_error | Some j \<Rightarrow> ok j)"

section \<open>json_utils.hpp\<close>

definition get_value_string :: "'f object_t \<Rightarrow> string \<Rightarrow> string res" where
  "get_value_string data key = rbind (obj_at data key) get_string"

definition get_value_integer :: "'f double_ops \<Rightarrow> 'f object_t \<Rightarrow> string \<Rightarrow> 64 word res" where
  "get_value_integer d data key = rbind (obj_at data key) (get_integer d)"

definition get_value_float :: "'f double_ops \<Rightarrow> 'f object_t \<Rightarrow> string \<Rightarrow> 'f res" where
  "get_value_float d data key = rbind (obj_at data key) (get_float d)"

text \<open>
  \<open>detail::read_json_file\<close>: \<open>contents\<close> is the text of the file, \<open>None\<close> when it cannot be opened;
  every exception of the parser and of \<open>get<T>\<close> is caught.
\<close>

definition read_json_file ::
  "(string \<Rightarrow> 'f json option) \<Rightarrow> ('f json \<Rightarrow> 'a res) \<Rightarrow> string option \<Rightarrow> 'a option" where
  "read_json_file parse getf contents =
     (case contents of
        None \<Rightarrow> None
      | Some text \<Rightarrow> (case rbind (parse_json parse text) getf of Inl _ \<Rightarrow> None | Inr v \<Rightarrow> Some v))"

definition read_object_json_file ::
  "(string \<Rightarrow> 'f json option) \<Rightarrow> string option \<Rightarrow> 'f object_t option" where
  "read_object_json_file parse contents = read_json_file parse get_object contents"

definition read_array_json_file ::
  "(string \<Rightarrow> 'f json option) \<Rightarrow> string option \<Rightarrow> 'f json list option" where
  "read_array_json_file parse contents = read_json_file parse get_array contents"

lemmas json_get_defs = get_object_def get_array_def get_string_def get_boolean_def obj_at_def
  get_value_string_def

lemma get_value_string_ok:
  "get_value_string m k = Inr s \<longleftrightarrow> map_of m k = Some (J_string s)"
  by (auto simp: json_get_defs res_simps split: option.splits json.splits)

lemma get_object_ok: "get_object j = Inr m \<longleftrightarrow> j = J_object m"
  by (auto simp: get_object_def split: json.splits)

lemma get_array_ok: "get_array j = Inr xs \<longleftrightarrow> j = J_array xs"
  by (auto simp: get_array_def split: json.splits)

lemma get_string_ok: "get_string j = Inr s \<longleftrightarrow> j = J_string s"
  by (auto simp: get_string_def split: json.splits)

lemma obj_at_ok: "obj_at m k = Inr v \<longleftrightarrow> map_of m k = Some v"
  by (auto simp: obj_at_def split: option.splits)

lemma get_value_integer_ok:
  "get_value_integer d m k = Inr w \<longleftrightarrow> (\<exists>v. map_of m k = Some v \<and> get_integer d v = Inr w)"
  by (auto simp: get_value_integer_def res_simps obj_at_ok)

lemmas json_ok = get_value_string_ok get_object_ok get_array_ok get_string_ok obj_at_ok
  get_value_integer_ok

lemma read_object_json_file_Some:
  "read_object_json_file parse c = Some m \<longleftrightarrow> (\<exists>t. c = Some t \<and> parse t = Some (J_object m))"
  by (auto simp: read_object_json_file_def read_json_file_def parse_json_def get_object_def
    split: option.splits sum.splits json.splits)

section \<open>std::to_string\<close>

fun nat_to_string :: "nat \<Rightarrow> string" where
  "nat_to_string n = (if n < 10 then [char_of (48 + n)]
     else nat_to_string (n div 10) @ [char_of (48 + n mod 10)])"

declare nat_to_string.simps [simp del]

definition int_to_string :: "int \<Rightarrow> string" where
  "int_to_string i = (if i < 0 then CHR ''-'' # nat_to_string (nat (- i)) else nat_to_string (nat i))"

text \<open>\<open>std::to_string\<close> of an \<open>int64_t\<close>.\<close>

definition to_string_int64 :: "64 word \<Rightarrow> string" where
  "to_string_int64 w = int_to_string (sint w)"

fun digits_value :: "nat \<Rightarrow> string \<Rightarrow> nat" where
  "digits_value acc [] = acc"
| "digits_value acc (c # cs) = digits_value (acc * 10 + (of_char c - 48)) cs"

lemma digits_value_append: "digits_value acc (xs @ ys) = digits_value (digits_value acc xs) ys"
  by (induction xs arbitrary: acc) auto

lemma nat_to_string_digits: "c \<in> set (nat_to_string n) \<Longrightarrow> is_digit c"
proof (induction n rule: nat_to_string.induct)
  case (1 n)
  then show ?case
    by (cases "n < 10") (auto simp: nat_to_string.simps [of n] is_digit_def)
qed

lemma nat_to_string_nonempty: "nat_to_string n \<noteq> []"
  by (simp add: nat_to_string.simps [of n])

lemma digits_value_nat_to_string: "digits_value 0 (nat_to_string n) = n"
proof (induction n rule: nat_to_string.induct)
  case (1 n)
  then show ?case
    by (cases "n < 10") (simp_all add: nat_to_string.simps [of n] digits_value_append)
qed

lemma nat_to_string_inj: "nat_to_string m = nat_to_string n \<Longrightarrow> m = n"
  by (metis digits_value_nat_to_string)

lemma int_to_string_inj: "int_to_string a = int_to_string b \<Longrightarrow> a = b"
proof -
  have minus: "nat_to_string n \<noteq> CHR ''-'' # s" for n s
    using nat_to_string_digits [of "CHR ''-''" n] by (auto simp: is_digit_def)
  then have "CHR ''-'' # s \<noteq> nat_to_string n" for n s by metis
  with minus show "int_to_string a = int_to_string b \<Longrightarrow> a = b"
    by (auto simp: int_to_string_def dest!: nat_to_string_inj split: if_splits)
qed

lemma to_string_int64_inj: "to_string_int64 v = to_string_int64 w \<longleftrightarrow> v = w"
  using int_to_string_inj [of "sint v" "sint w"] by (auto simp: to_string_int64_def intro: signed_word_eqI)

lemma length_nat_to_string_less: "n < 10 ^ k \<Longrightarrow> 0 < k \<Longrightarrow> length (nat_to_string n) \<le> k"
proof (induction k arbitrary: n)
  case (Suc k)
  show ?case
  proof (cases "n < 10")
    case True
    then show ?thesis by (simp add: nat_to_string.simps [of n])
  next
    case False
    with Suc.prems have "n div 10 < 10 ^ k" "0 < k" by (auto intro: gr0I)
    from Suc.IH [OF this] False show ?thesis by (simp add: nat_to_string.simps [of n])
  qed
qed simp

text \<open>An instance of the double operations on which witnesses compute: whole numbers.\<close>

definition whole_doubles :: "int double_ops" where
  "whole_doubles = \<lparr>d_to_int64 = word_of_int, d_of_int64 = sint, d_of_uint64 = uint,
     d_to_string = int_to_string, d_stod = (\<lambda>s. rbind (if s = [] then raise Invalid_argument
       else ok (int (digits_value 0 (takeWhile is_digit s)))) ok)\<rparr>"

end
