(* ===== verification/Http.thy ===== *)
theory Http
  imports Json
begin

text \<open>
  HTTP requests as the clients build them with Boost.Beast: a method, a target, the protocol
  version as the two-digit number that Beast uses, the fields in the order they were set and the
  body. Setting a field replaces an earlier one of the same name.
\<close>

datatype verb = Verb_unknown | Verb_get | Verb_post | Verb_put | Verb_delete | Verb_head | Verb_options | Verb_patch

record http_request =
  h_method :: verb
  h_target :: string
  h_version :: nat
  h_fields :: "(string \<times> string) list"
  h_body :: string

definition empty_request :: http_request where
  "empty_request = \<lparr>h_method = Verb_unknown, h_target = [], h_version = 11, h_fields = [], h_body = []\<rparr>"

definition set_field :: "string \<Rightarrow> string \<Rightarrow> http_request \<Rightarrow> http_request" where
  "set_field name value r =
     r\<lparr>h_fields := filter (\<lambda>(n, _). n \<noteq> name) (h_fields r) @ [(name, value)]\<rparr>"

text \<open>\<open>prepare_payload()\<close> sets the length of the body, also of an empty one where the method
  expects a body.\<close>

definition prepare_payload :: "http_request \<Rightarrow> http_request" where
  "prepare_payload r =
     (if h_body r \<noteq> [] \<or> h_method r \<in> {Verb_options, Verb_put, Verb_post}
      then set_field ''Content-Length'' (nat_to_string (length (h_body r))) r else r)"

definition field_value :: "http_request \<Rightarrow> string \<Rightarrow> string option" where
  "field_value r name = map_of (h_fields r) name"

lemma field_value_set [simp]:
  "field_value (set_field n v r) m = (if n = m then Some v else field_value r m)"
proof -
  have "map_of (filter (\<lambda>(k, _). k \<noteq> n) xs) m = (if n = m then None else map_of xs m)" for xs :: "(string \<times> string) list"
    by (induction xs) auto
  then show ?thesis by (auto simp: field_value_def set_field_def map_add_def split: option.splits)
qed

end
