(* ===== verification/Time_Utils.thy ===== *)
theory Time_Utils
  imports Json
begin

text \<open>
  The time functions of common/json_utils.cpp and \<open>process_timet\<close> of user_data_stream.cpp.
  \<open>std::gmtime\<close> and \<open>std::strftime\<close> are the C library's: \<open>gmtime\<close> is written as the library
  computes it, by walking years and months from the day number in the proleptic Gregorian
  calendar, and is checked against \<open>timegm\<close>, the closed formula for the day number of a date.
  \<open>time_t\<close> is 64 bits wide and \<open>tm_year\<close> is an \<open>int\<close>: a year that does not fit gives the null
  pointer.
\<close>

section \<open>Calendar\<close>

record tm =
  tm_year :: int
  tm_mon :: nat
  tm_mday :: nat
  tm_hour :: nat
  tm_min :: nat
  tm_sec :: nat

definition is_leap :: "int \<Rightarrow> bool" where
  "is_leap y \<longleftrightarrow> 4 dvd y \<and> \<not> 100 dvd y \<or> 400 dvd y"

definition days_in_year :: "int \<Rightarrow> nat" where
  "days_in_year y = (if is_leap y then 366 else 365)"

definition month_lengths :: "int \<Rightarrow> nat list" where
  "month_lengths y = [31, if is_leap y then 29 else 28, 31, 30, 31, 30, 31, 31, 30, 31, 30, 31]"

function year_loop :: "int \<Rightarrow> nat \<Rightarrow> int \<times> nat" where
  "year_loop y d = (if d < days_in_year y then (y, d) else year_loop (y + 1) (d - days_in_year y))"
  by pat_completeness auto
termination
  by (relation "measure snd") (auto simp: days_in_year_def split: if_splits)

declare year_loop.simps [simp del]

fun month_loop :: "nat list \<Rightarrow> nat \<Rightarrow> nat \<Rightarrow> nat \<times> nat" where
  "month_loop [] m d = (m, d)"
| "month_loop (l # ls) m d = (if d < l then (m, d) else month_loop ls (m + 1) (d - l))"

text \<open>10957 is the day number of 2000-01-01; 146097 days are 400 years.\<close>

definition civil_from_days :: "int \<Rightarrow> int \<times> nat \<times> nat" where
  "civil_from_days days =
     (let (y, yd) = year_loop 2000 (nat ((days - 10957) mod 146097));
          (m, md) = month_loop (month_lengths y) 0 yd
      in (y + 400 * ((days - 10957) div 146097), m, md + 1))"

definition gmtime :: "int \<Rightarrow> tm option" where
  "gmtime t =
     (let (y, m, d) = civil_from_days (t div 86400); s = nat (t mod 86400)
      in if - 2147483648 \<le> y - 1900 \<and> y - 1900 \<le> 2147483647
         then Some \<lparr>tm_year = y - 1900, tm_mon = m, tm_mday = d, tm_hour = s div 3600,
           tm_min = s mod 3600 div 60, tm_sec = s mod 60\<rparr>
         else None)"

section \<open>Formatting\<close>

definition pad2 :: "nat \<Rightarrow> string" where
  "pad2 n = [char_of (48 + n div 10), char_of (48 + n mod 10)]"

text \<open>\<open>%Y-%m-%d %H:%M:%S\<close>.\<close>

definition format_datetime :: "tm \<Rightarrow> string" where
  "format_datetime t = int_to_string (tm_year t + 1900) @ ''-'' @ pad2 (tm_mon t + 1) @ ''-''
     @ pad2 (tm_mday t) @ '' '' @ pad2 (tm_hour t) @ '':'' @ pad2 (tm_min t) @ '':''
     @ pad2 (tm_sec t)"

text \<open>\<open>%Y-%m-%dT%H:%M:%S.600Z\<close>.\<close>

definition format_okex :: "tm \<Rightarrow> string" where
  "format_okex t = int_to_string (tm_year t + 1900) @ ''-'' @ pad2 (tm_mon t + 1) @ ''-''
     @ pad2 (tm_mday t) @ ''T'' @ pad2 (tm_hour t) @ '':'' @ pad2 (tm_min t) @ '':''
     @ pad2 (tm_sec t) @ ''.600Z''"

text \<open>\<open>strftime\<close> into a buffer of \<open>maxsize\<close> characters returns 0 when text and final null do not fit.\<close>

definition strftime :: "nat \<Rightarrow> string \<Rightarrow> string option" where
  "strftime maxsize text = (if text \<noteq> [] \<and> length text < maxsize then Some text else None)"

definition timet_to_string :: "64 word \<Rightarrow> string option" where
  "timet_to_string t =
     (case gmtime (sint t) of None \<Rightarrow> None | Some tm_t \<Rightarrow> strftime 32 (format_datetime tm_t))"

definition timet_to_okex_timezone :: "64 word \<Rightarrow> string option" where
  "timet_to_okex_timezone now =
     (case gmtime (sint now) of None \<Rightarrow> None | Some tm_t \<Rightarrow> strftime 32 (format_okex tm_t))"

text \<open>\<open>std::stoull\<close>: leading white space, a sign, decimal digits; the rest is ignored.\<close>

definition stoull :: "string \<Rightarrow> 64 word res" where
  "stoull str =
     (let s = dropWhile isspace str;
          neg = (s \<noteq> [] \<and> hd s = CHR ''-'');
          s' = (if s \<noteq> [] \<and> (hd s = CHR ''-'' \<or> hd s = CHR ''+'') then tl s else s);
          ds = takeWhile is_digit s'; v = digits_value 0 ds
      in if ds = [] then raise Invalid_argument
         else if 2 ^ 64 \<le> v then raise Out_of_range
         else ok (if neg then - of_nat v else of_nat v))"

definition timet_to_string_str :: "string \<Rightarrow> string option" where
  "timet_to_string_str str =
     (if str = [] then None
      else case stoull str of Inl _ \<Rightarrow> None | Inr w \<Rightarrow> timet_to_string (w div 1000))"

definition process_timet :: "string \<Rightarrow> 64 word \<Rightarrow> string" where
  "process_timet result time_t_value_ms =
     (case timet_to_string (time_t_value_ms div 1000) of Some s \<Rightarrow> s | None \<Rightarrow> result)"

section \<open>The closed formula\<close>

definition leaps :: "int \<Rightarrow> int" where
  "leaps y = y div 4 - y div 100 + y div 400"

text \<open>Days from 1970-01-01 to the first of January of a year.\<close>

definition days_before_year :: "int \<Rightarrow> int" where
  "days_before_year y = 365 * (y - 1970) + leaps (y - 1) - leaps 1969"

definition days_from_civil :: "int \<Rightarrow> nat \<Rightarrow> nat \<Rightarrow> int" where
  "days_from_civil y m d = days_before_year y + int (sum_list (take m (month_lengths y))) + int d - 1"

definition timegm :: "tm \<Rightarrow> int" where
  "timegm t = days_from_civil (tm_year t + 1900) (tm_mon t) (tm_mday t) * 86400
     + int (tm_hour t * 3600 + tm_min t * 60 + tm_sec t)"

definition valid_tm :: "tm \<Rightarrow> bool" where
  "valid_tm t \<longleftrightarrow> tm_mon t < 12 \<and> 1 \<le> tm_mday t \<and>
     tm_mday t \<le> month_lengths (tm_year t + 1900) ! tm_mon t \<and>
     tm_hour t < 24 \<and> tm_min t < 60 \<and> tm_sec t < 60"

lemma div_pred:
  assumes "0 < k"
  shows "(y :: int) div k = (y - 1) div k + (if k dvd y then 1 else 0)"
proof (cases "k dvd y")
  case True
  then obtain q where q: "y = k * q" by blast
  have "(y - 1) div k = q - 1"
    using assms by (intro int_div_pos_eq [where r = "k - 1"]) (simp_all add: q algebra_simps)
  with True q assms show ?thesis by simp
next
  case False
  then have "0 < y mod k" using assms by (simp add: dvd_eq_mod_eq_0 order_less_le)
  then have "(y - 1) div k = y div k"
    using assms by (intro int_div_pos_eq [where r = "y mod k - 1"])
      (simp_all add: algebra_simps less_imp_le [OF pos_mod_bound] add_strict_increasing
        order.strict_trans2 [OF pos_mod_bound])
  with False show ?thesis by simp
qed

lemma leaps_step: "leaps y = leaps (y - 1) + (if is_leap y then 1 else 0)"
proof -
  have dvds: "400 dvd y \<Longrightarrow> 100 dvd y" "100 dvd y \<Longrightarrow> 4 dvd y"
    by (auto intro: dvd_trans [of 100 400 y] dvd_trans [of 4 100 y])
  note steps = div_pred [of 4 y] div_pred [of 100 y] div_pred [of 400 y]
  consider "\<not> 4 dvd y" "\<not> 100 dvd y" "\<not> 400 dvd y" | "4 dvd y" "\<not> 100 dvd y" "\<not> 400 dvd y"
    | "4 dvd y" "100 dvd y" "\<not> 400 dvd y" | "4 dvd y" "100 dvd y" "400 dvd y"
    using dvds by blast
  then show ?thesis by cases (use steps in \<open>simp_all only: leaps_def is_leap_def if_True if_False simp_thms\<close>)
qed

lemma days_before_year_Suc: "days_before_year (y + 1) = days_before_year y + int (days_in_year y)"
  using leaps_step [of y] by (simp add: days_before_year_def days_in_year_def)

lemma div_era: "0 < k \<Longrightarrow> (y + (k * c) * e) div k = (y :: int) div k + c * e"
  using div_mult_self2 [of k y "c * e"] by (simp only: mult.assoc)

lemma days_before_year_era: "days_before_year (y + 400 * e) = days_before_year y + 146097 * e"
  using div_era [of 4 "y - 1" 100 e] div_era [of 100 "y - 1" 4 e] div_era [of 400 "y - 1" 1 e]
  by (simp add: days_before_year_def leaps_def algebra_simps)

lemma is_leap_era: "is_leap (y + 400 * e) = is_leap y"
proof -
  have "(4 :: int) dvd 400 * e" "(100 :: int) dvd 400 * e" "(400 :: int) dvd 400 * e"
    by (simp_all add: dvd_mult2)
  then show ?thesis by (simp only: is_leap_def dvd_add_left_iff)
qed

lemma month_lengths_era: "month_lengths (y + 400 * e) = month_lengths y"
  by (simp add: month_lengths_def is_leap_era)

lemma year_loop_spec:
  "year_loop y d = (y', d') \<Longrightarrow>
   d' < days_in_year y' \<and> days_before_year y' + int d' = days_before_year y + int d"
proof (induction y d rule: year_loop.induct)
  case (1 y d)
  then show ?case
    by (cases "d < days_in_year y") (auto simp: year_loop.simps [of y d] days_before_year_Suc)
qed

lemma month_loop_spec:
  "month_loop ls m d = (m', d') \<Longrightarrow> d < sum_list ls \<Longrightarrow>
   \<exists>k. m' = m + k \<and> k < length ls \<and> d' < ls ! k \<and> sum_list (take k ls) + d' = d"
proof (induction ls arbitrary: m d)
  case (Cons l ls)
  show ?case
  proof (cases "d < l")
    case True
    with Cons.prems show ?thesis by (intro exI [of _ 0]) auto
  next
    case False
    with Cons.prems have "month_loop ls (m + 1) (d - l) = (m', d')" "d - l < sum_list ls" by auto
    from Cons.IH [OF this] obtain k where "m' = m + 1 + k" "k < length ls" "d' < ls ! k"
      "sum_list (take k ls) + d' = d - l" by blast
    with False show ?thesis by (intro exI [of _ "Suc k"]) auto
  qed
qed simp

lemma sum_month_lengths: "sum_list (month_lengths y) = days_in_year y"
  by (simp add: month_lengths_def days_in_year_def)

lemma length_month_lengths: "length (month_lengths y) = 12"
  by (simp add: month_lengths_def)

lemma civil_from_days_spec:
  assumes "civil_from_days days = (y, m, d)"
  shows "days_from_civil y m d = days" "m < 12" "1 \<le> d" "d \<le> month_lengths y ! m"
proof -
  let ?e = "(days - 10957) div 146097" and ?r = "(days - 10957) mod 146097"
  obtain y0 yd where yl: "year_loop 2000 (nat ?r) = (y0, yd)" by fastforce
  obtain m0 md where ml: "month_loop (month_lengths y0) 0 yd = (m0, md)" by fastforce
  from assms yl ml have eqs: "y = y0 + 400 * ?e" "m = m0" "d = md + 1"
    by (auto simp: civil_from_days_def Let_def)
  note ys = year_loop_spec [OF yl]
  have ms: "m0 < 12" "md < month_lengths y0 ! m0"
    "sum_list (take m0 (month_lengths y0)) + md = yd"
    using month_loop_spec [OF ml] ys by (auto simp: sum_month_lengths length_month_lengths)
  have "days_before_year 2000 = 10957" by (simp add: days_before_year_def leaps_def)
  then have "days_before_year y0 + int yd = 10957 + ?r" using ys by simp
  moreover have "146097 * ?e + ?r = days - 10957" by (rule mult_div_mod_eq)
  ultimately have "days_before_year y0 + int yd + 146097 * ?e = days" by linarith
  then show "days_from_civil y m d = days"
    unfolding ms(3) [symmetric]
    by (simp only: days_from_civil_def eqs days_before_year_era month_lengths_era)
  show "m < 12" "1 \<le> d" "d \<le> month_lengths y ! m"
    using ms by (simp_all add: eqs month_lengths_era)
qed

lemma gmtime_spec:
  assumes "gmtime t = Some g"
  shows "timegm g = t" "valid_tm g"
proof -
  obtain y m d where c: "civil_from_days (t div 86400) = (y, m, d)" by (cases "civil_from_days (t div 86400)")
  let ?s = "nat (t mod 86400)"
  have g: "g = \<lparr>tm_year = y - 1900, tm_mon = m, tm_mday = d, tm_hour = ?s div 3600,
      tm_min = ?s mod 3600 div 60, tm_sec = ?s mod 60\<rparr>"
    using assms c by (auto simp: gmtime_def Let_def split: if_splits)
  have s: "?s div 3600 * 3600 + ?s mod 3600 div 60 * 60 + ?s mod 60 = ?s"
  proof -
    have "?s mod 3600 mod 60 = ?s mod 60" by (rule mod_mod_cancel) simp
    then have "?s mod 3600 div 60 * 60 + ?s mod 60 = ?s mod 3600"
      using div_mult_mod_eq [of "?s mod 3600" 60] by linarith
    then show ?thesis using div_mult_mod_eq [of ?s 3600] by linarith
  qed
  have day: "t div 86400 * 86400 + int ?s = t"
    using div_mult_mod_eq [of t 86400] by simp
  have ranges: "?s div 3600 < 24" "?s mod 3600 div 60 < 60" "?s mod 60 < 60"
    by (simp_all add: less_mult_imp_div_less)
  show "timegm g = t"
    unfolding timegm_def g tm.simps s using civil_from_days_spec(1) [OF c] day by simp
  show "valid_tm g"
    using civil_from_days_spec(2-4) [OF c] ranges unfolding valid_tm_def g tm.simps by simp
qed

section \<open>Ranges\<close>

lemma days_before_year_mono: "a \<le> b \<Longrightarrow> days_before_year a \<le> days_before_year b"
proof (induction b rule: int_ge_induct)
  case (step b)
  then show ?case using days_before_year_Suc [of b] by simp
qed simp

lemma month_prefix_le:
  assumes "m < 12" "d \<le> month_lengths y ! m"
  shows "sum_list (take m (month_lengths y)) + d \<le> days_in_year y"
proof -
  have "month_lengths y = take m (month_lengths y) @ month_lengths y ! m # drop (Suc m) (month_lengths y)"
    using assms(1) by (intro id_take_nth_drop) (simp add: length_month_lengths)
  then have "sum_list (month_lengths y) = sum_list (take m (month_lengths y)) + month_lengths y ! m
      + sum_list (drop (Suc m) (month_lengths y))"
    by (metis sum_list.append sum_list.Cons add.assoc)
  with assms(2) show ?thesis by (simp add: sum_month_lengths)
qed

text \<open>A day lies in the year that the calendar walk finds.\<close>

lemma civil_year_bounds:
  assumes "civil_from_days days = (y, m, d)"
  shows "days_before_year y \<le> days" "days < days_before_year (y + 1)"
proof -
  note c = civil_from_days_spec [OF assms]
  note le = month_prefix_le [OF c(2) c(4)]
  show "days_before_year y \<le> days" using c(1,3) unfolding days_from_civil_def by linarith
  show "days < days_before_year (y + 1)"
    using c(1,3) le unfolding days_from_civil_def days_before_year_Suc by linarith
qed

lemma civil_year_nonneg:
  assumes "civil_from_days days = (y, m, d)" "0 \<le> days"
  shows "1970 \<le> y" "365 * (y - 1970) \<le> days + 5"
proof -
  note b = civil_year_bounds [OF assms(1)]
  have zero: "days_before_year 1970 = 0" by (simp add: days_before_year_def leaps_def)
  show ge: "1970 \<le> y"
  proof (rule ccontr)
    assume "\<not> 1970 \<le> y"
    then have "days_before_year (y + 1) \<le> 0" using days_before_year_mono [of "y + 1" 1970] zero by simp
    with b(2) assms(2) show False by linarith
  qed
  have "- 5 \<le> leaps (y - 1) - leaps 1969" using ge unfolding leaps_def by simp
  with b(1) show "365 * (y - 1970) \<le> days + 5" unfolding days_before_year_def by linarith
qed

lemma gmtime_recent:
  assumes "0 \<le> t" "t \<le> 18446744073709551"
  shows "\<exists>g. gmtime t = Some g \<and> 70 \<le> tm_year g \<and> tm_year g + 1900 < 1000000000"
proof -
  obtain y m d where c: "civil_from_days (t div 86400) = (y, m, d)"
    by (cases "civil_from_days (t div 86400)")
  have "0 \<le> t div 86400" "t div 86400 \<le> 213503982334"
    using assms zdiv_mono1 [of t 18446744073709551 86400] by simp_all
  with civil_year_nonneg [OF c] have "1970 \<le> y" "y < 1000000000" by auto
  with c show ?thesis by (simp add: gmtime_def Let_def)
qed

lemma length_format_datetime:
  assumes "70 \<le> tm_year g" "tm_year g + 1900 < 1000000000"
  shows "length (format_datetime g) \<le> 24"
proof -
  have "nat (tm_year g + 1900) < 10 ^ 9" using assms by simp
  then have "length (nat_to_string (nat (tm_year g + 1900))) \<le> 9" by (rule length_nat_to_string_less) simp
  with assms(1) show ?thesis by (simp add: format_datetime_def int_to_string_def pad2_def)
qed

lemma timet_to_string_recent:
  assumes "uint w \<le> 18446744073709551"
  shows "\<exists>g. gmtime (uint w) = Some g \<and> timet_to_string w = Some (format_datetime g)"
proof -
  obtain g where g: "gmtime (uint w) = Some g" "70 \<le> tm_year g" "tm_year g + 1900 < 1000000000"
    using gmtime_recent [OF _ assms] by auto
  have "sint w = uint w"
    unfolding sint_uint using assms by (intro signed_take_bit_int_eq_self)
      (simp_all add: order.trans [OF _ uint_nonnegative])
  with g length_format_datetime [OF g(2,3)] show ?thesis
    by (simp add: timet_to_string_def strftime_def) (simp add: format_datetime_def)
qed

lemma process_timet_spec:
  "\<exists>g. gmtime (uint w div 1000) = Some g \<and> process_timet result w = format_datetime g"
proof -
  have u: "uint (w div 1000) = uint w div 1000" by (simp add: uint_div_distrib)
  have "uint w \<le> 18446744073709551615" using uint_bounded [of w] by simp
  then have "uint w div 1000 \<le> 18446744073709551"
    using zdiv_mono1 [of "uint w" 18446744073709551615 1000] by simp
  with timet_to_string_recent [of "w div 1000"] u show ?thesis
    by (auto simp: process_timet_def)
qed

section \<open>Properties\<close>



text \<open>
  C40. \<open>process_timet\<close> always overwrites its target with the formatted time of the millisecond
  stamp, for every 64-bit value (a negative stamp is read as a huge unsigned one): the 32-character
  buffer never is too small and \<open>gmtime\<close> never returns null, so no time field of an event stays
  empty.
\<close>

theorem process_timet_total:
  "\<exists>g. process_timet result w = format_datetime g \<and> valid_tm g \<and> timegm g = uint w div 1000 \<and>
     process_timet result w \<noteq> [] \<and> length (process_timet result w) < 32"
proof -
  obtain g where g: "gmtime (uint w div 1000) = Some g" "process_timet result w = format_datetime g"
    using process_timet_spec by blast
  have "uint w div 1000 \<le> 18446744073709551"
    using uint_bounded [of w] zdiv_mono1 [of "uint w" 18446744073709551615 1000] by simp
  moreover have "0 \<le> uint w div 1000" by (simp add: pos_imp_zdiv_nonneg_iff)
  ultimately have "length (format_datetime g) \<le> 24"
    using gmtime_recent [of "uint w div 1000"] g(1) length_format_datetime by auto
  with g gmtime_spec [OF g(1)] show ?thesis by (intro exI [of _ g]) (simp add: format_datetime_def)
qed

end
