(* ===== verification/Orders_Info.thy ===== *)
theory Orders_Info
  imports Prelude
begin

text \<open>
  The data of binance_orders: include/orders_info.hpp (the three kinds of messages of the user
  data stream), include/host_info.hpp (an account to watch) with its equality, and the variant of
  include/request_handler.hpp.
\<close>

record ws_order_info_t =
  o_instrument_id :: string
  o_order_side :: string
  o_order_type :: string
  o_time_in_force :: string
  o_quantity_purchased :: string
  o_order_price :: string
  o_stop_price :: string
  o_execution_type :: string
  o_order_status :: string
  o_reject_reason :: string
  o_order_id :: string
  o_last_filled_quantity :: string
  o_cummulative_filled_quantity :: string
  o_last_executed_price :: string
  o_commission_amount :: string
  o_commission_asset :: string
  o_trade_id :: string
  o_event_time :: string
  o_transaction_time :: string
  o_created_time :: string
  o_for_aliased_account :: string
  o_telegram_group :: string

record ws_balance_info_t =
  b_instrument_id :: string
  b_balance :: string
  b_event_time :: string
  b_clear_time :: string
  b_for_aliased_account :: string
  b_telegram_group :: string

record ws_account_update_t =
  a_instrument_id :: string
  a_free_amount :: string
  a_locked_amount :: string
  a_event_time :: string
  a_last_account_update :: string
  a_for_aliased_account :: string
  a_telegram_group :: string

datatype user_stream_result_t =
    Order_item ws_order_info_t
  | Balance_item ws_balance_info_t
  | Account_item ws_account_update_t

datatype host_changed_e = no_changes | host_removed | tg_group_changed

record host_info_t =
  account_alias :: string
  api_key :: string
  secret_key :: string
  tg_group_name :: string
  changes :: host_changed_e

text \<open>\<open>operator==\<close> of background_threads.cpp compares the identity of an account only.\<close>

definition host_key :: "host_info_t \<Rightarrow> string \<times> string \<times> string" where
  "host_key h = (account_alias h, api_key h, secret_key h)"

definition same_host :: "host_info_t \<Rightarrow> host_info_t \<Rightarrow> bool" where
  "same_host first second \<longleftrightarrow>
     (account_alias first, api_key first, secret_key first)
       = (account_alias second, api_key second, secret_key second)"

definition changes_made_to_host :: "host_info_t \<Rightarrow> host_info_t \<Rightarrow> bool" where
  "changes_made_to_host original new_host \<longleftrightarrow>
     (tg_group_name original, account_alias original)
       \<noteq> (tg_group_name new_host, account_alias new_host)"

lemma same_host_key: "same_host a b \<longleftrightarrow> host_key a = host_key b"
  by (simp add: same_host_def host_key_def)

definition item_group :: "user_stream_result_t \<Rightarrow> string" where
  "item_group i = (case i of Order_item x \<Rightarrow> o_telegram_group x
     | Balance_item x \<Rightarrow> b_telegram_group x | Account_item x \<Rightarrow> a_telegram_group x)"

definition item_account :: "user_stream_result_t \<Rightarrow> string" where
  "item_account i = (case i of Order_item x \<Rightarrow> o_for_aliased_account x
     | Balance_item x \<Rightarrow> b_for_aliased_account x | Account_item x \<Rightarrow> a_for_aliased_account x)"

end
