(* ===== verification/Stream_Messages.thy ===== *)
theory Stream_Messages
  imports Orders_Info Time_Utils
begin

text \<open>
  The message handlers of user_data_stream.cpp: from the JSON text of a WebSocket frame to the
  items appended to the stream container. An exception anywhere in a handler leaves it before
  the append, is logged by \<open>ws_interpret_generic_messages\<close> and loses the frame.
\<close>

definition commission_asset_of :: "'f double_ops \<Rightarrow> 'f object_t \<Rightarrow> string res" where
  "commission_asset_of d order_object =
     (case map_of order_object ''N'' of
        None \<Rightarrow> ok []
      | Some j \<Rightarrow>
          if is_string j then get_string j
          else if is_number j then rbind (get_float d j) (\<lambda>x. ok (d_to_string d x))
          else ok [])"

definition ws_process_orders_execution_report ::
  "'f double_ops \<Rightarrow> host_info_t \<Rightarrow> 'f object_t \<Rightarrow> ws_order_info_t res" where
  "ws_process_orders_execution_report d host m =
     rbind (get_value_string m ''s'') (\<lambda>instrument_id.
     rbind (get_value_string m ''S'') (\<lambda>order_side.
     rbind (get_value_string m ''o'') (\<lambda>order_type.
     rbind (get_value_string m ''f'') (\<lambda>time_in_force.
     rbind (get_value_string m ''q'') (\<lambda>quantity_purchased.
     rbind (get_value_string m ''p'') (\<lambda>order_price.
     rbind (get_value_string m ''P'') (\<lambda>stop_price.
     rbind (get_value_string m ''x'') (\<lambda>execution_type.
     rbind (get_value_string m ''X'') (\<lambda>order_status.
     rbind (get_value_string m ''r'') (\<lambda>reject_reason.
     rbind (get_value_string m ''l'') (\<lambda>last_filled_quantity.
     rbind (get_value_string m ''n'') (\<lambda>commission_amount.
     rbind (get_value_string m ''L'') (\<lambda>last_executed_price.
     rbind (get_value_string m ''z'') (\<lambda>cummulative_filled_quantity.
     rbind (get_value_integer d m ''i'') (\<lambda>order_id.
     rbind (get_value_integer d m ''t'') (\<lambda>trade_id.
     rbind (commission_asset_of d m) (\<lambda>commission_asset.
     rbind (get_value_integer d m ''E'') (\<lambda>event_time.
     rbind (get_value_integer d m ''T'') (\<lambda>transaction_time.
     rbind (get_value_integer d m ''O'') (\<lambda>created_time.
     ok \<lparr>o_instrument_id = instrument_id, o_order_side = order_side, o_order_type = order_type,
       o_time_in_force = time_in_force, o_quantity_purchased = quantity_purchased,
       o_order_price = order_price, o_stop_price = stop_price, o_execution_type = execution_type,
       o_order_status = order_status, o_reject_reason = reject_reason,
       o_order_id = to_string_int64 order_id, o_last_filled_quantity = last_filled_quantity,
       o_cummulative_filled_quantity = cummulative_filled_quantity,
       o_last_executed_price = last_executed_price, o_commission_amount = commission_amount,
       o_commission_asset = commission_asset, o_trade_id = to_string_int64 trade_id,
       o_event_time = process_timet [] event_time,
       o_transaction_time = process_timet [] transaction_time,
       o_created_time = process_timet [] created_time,
       o_for_aliased_account = account_alias host, o_telegram_group = tg_group_name host\<rparr>
     ))))))))))))))))))))"

definition ws_process_balance_update ::
  "'f double_ops \<Rightarrow> host_info_t \<Rightarrow> 'f object_t \<Rightarrow> ws_balance_info_t res" where
  "ws_process_balance_update d host m =
     rbind (get_value_string m ''d'') (\<lambda>balance.
     rbind (get_value_string m ''a'') (\<lambda>instrument_id.
     rbind (get_value_integer d m ''E'') (\<lambda>event_time.
     rbind (get_value_integer d m ''T'') (\<lambda>clear_time.
     ok \<lparr>b_instrument_id = instrument_id, b_balance = balance,
       b_event_time = process_timet [] event_time, b_clear_time = process_timet [] clear_time,
       b_for_aliased_account = account_alias host, b_telegram_group = tg_group_name host\<rparr>))))"

text \<open>One element of the \<open>B\<close> array; the other fields of \<open>data\<close> were set before the loop.\<close>

definition account_position_item ::
  "ws_account_update_t \<Rightarrow> 'f json \<Rightarrow> ws_account_update_t res" where
  "account_position_item data json_item =
     rbind (get_object json_item) (\<lambda>asset_item.
     rbind (get_value_string asset_item ''a'') (\<lambda>instrument_id.
     rbind (get_value_string asset_item ''f'') (\<lambda>free_amount.
     rbind (get_value_string asset_item ''l'') (\<lambda>locked_amount.
     ok (data\<lparr>a_instrument_id := instrument_id, a_free_amount := free_amount,
       a_locked_amount := locked_amount\<rparr>)))))"

definition ws_process_account_position ::
  "'f double_ops \<Rightarrow> host_info_t \<Rightarrow> 'f object_t \<Rightarrow> ws_account_update_t list res" where
  "ws_process_account_position d host m =
     rbind (get_value_integer d m ''E'') (\<lambda>event_time.
     rbind (get_value_integer d m ''u'') (\<lambda>last_account_update.
     rbind (obj_at m ''B'') (\<lambda>b.
     rbind (get_array b) (\<lambda>balances_array.
     rmap (account_position_item
       \<lparr>a_instrument_id = [], a_free_amount = [], a_locked_amount = [],
        a_event_time = process_timet [] event_time,
        a_last_account_update = process_timet [] last_account_update,
        a_for_aliased_account = account_alias host, a_telegram_group = tg_group_name host\<rparr>)
       balances_array))))"

text \<open>
  The body of the \<open>try\<close> block of \<open>ws_interpret_generic_messages\<close>: the items it appends. An object
  without \<open>e\<close> and an unknown event type append nothing.
\<close>

definition interpret_frame ::
  "(string \<Rightarrow> 'f json option) \<Rightarrow> 'f double_ops \<Rightarrow> host_info_t \<Rightarrow> string \<Rightarrow>
   user_stream_result_t list res" where
  "interpret_frame parse d host buffer =
     rbind (parse_json parse buffer) (\<lambda>j.
     rbind (get_object j) (\<lambda>root.
       case map_of root ''e'' of
         None \<Rightarrow> ok []
       | Some e \<Rightarrow> rbind (get_string e) (\<lambda>event_type.
           if event_type = ''executionReport'' then
             rbind (ws_process_orders_execution_report d host root) (\<lambda>x. ok [Order_item x])
           else if event_type = ''balanceUpdate'' then
             rbind (ws_process_balance_update d host root) (\<lambda>x. ok [Balance_item x])
           else if event_type = ''outboundAccountPosition'' then
             rbind (ws_process_account_position d host root) (\<lambda>xs. ok (map Account_item xs))
           else ok [])))"

text \<open>With the exception handler: what the frame contributes to the container.\<close>

definition frame_items ::
  "(string \<Rightarrow> 'f json option) \<Rightarrow> 'f double_ops \<Rightarrow> host_info_t \<Rightarrow> string \<Rightarrow>
   user_stream_result_t list" where
  "frame_items parse d host buffer =
     (case interpret_frame parse d host buffer of Inl _ \<Rightarrow> [] | Inr items \<Rightarrow> items)"

section \<open>Properties\<close>

lemma account_position_item_fields:
  "account_position_item data j = Inr x \<Longrightarrow>
   \<exists>m. j = J_object m \<and> map_of m ''a'' = Some (J_string (a_instrument_id x)) \<and>
      map_of m ''f'' = Some (J_string (a_free_amount x)) \<and>
      map_of m ''l'' = Some (J_string (a_locked_amount x)) \<and>
      a_for_aliased_account x = a_for_aliased_account data \<and>
      a_telegram_group x = a_telegram_group data"
  by (auto simp: account_position_item_def res_simps json_ok)


definition example_report :: "int object_t" where
  "example_report = [(''s'', J_string ''BTCUSDT''), (''S'', J_string ''BUY''), (''o'', J_string ''LIMIT''),
     (''f'', J_string ''GTC''), (''q'', J_string ''1.0''), (''p'', J_string ''35000''),
     (''P'', J_string ''0''), (''x'', J_string ''TRADE''), (''X'', J_string ''FILLED''),
     (''r'', J_string ''NONE''), (''l'', J_string ''1.0''), (''n'', J_string ''0.1''),
     (''L'', J_string ''35000''), (''z'', J_string ''1.0''), (''i'', J_unsigned 4293153),
     (''t'', J_integer (- 1)), (''N'', J_null), (''E'', J_unsigned 1499405658658),
     (''T'', J_unsigned 1499405658657), (''O'', J_unsigned 1499405658657)]"

definition example_host :: host_info_t where
  "example_host = \<lparr>account_alias = ''main'', api_key = ''k'', secret_key = ''s'',
     tg_group_name = ''traders'', changes = no_changes\<rparr>"


text \<open>
  C33. An account update is all or nothing: its frame contributes either no item at all, or one
  item per element of the \<open>B\<close> array, in order, each with the asset, free and locked amount of its
  own element and with the alias and group of the account.
\<close>

theorem account_position_all_or_nothing:
  assumes "parse buffer = Some (J_object root)"
    and "map_of root ''e'' = Some (J_string ''outboundAccountPosition'')"
    and "map_of root ''B'' = Some (J_array js)"
    and "items = frame_items parse d host buffer"
  shows "items = [] \<or> length items = length js \<and>
    list_all2 (\<lambda>item j. \<exists>x m. item = Account_item x \<and> j = J_object m \<and>
      map_of m ''a'' = Some (J_string (a_instrument_id x)) \<and>
      map_of m ''f'' = Some (J_string (a_free_amount x)) \<and>
      map_of m ''l'' = Some (J_string (a_locked_amount x)) \<and>
      a_for_aliased_account x = account_alias host \<and> a_telegram_group x = tg_group_name host)
      items js"
proof (cases "ws_process_account_position d host root")
  case (Inl e)
  with assms show ?thesis by (simp add: frame_items_def interpret_frame_def parse_json_def json_get_defs)
next
  case (Inr xs)
  with assms(1,2,4) have items: "items = map Account_item xs"
    by (simp add: frame_items_def interpret_frame_def parse_json_def json_get_defs)
  from Inr assms(3) obtain ev lu where
    m: "rmap (account_position_item
       \<lparr>a_instrument_id = [], a_free_amount = [], a_locked_amount = [],
        a_event_time = ev, a_last_account_update = lu,
        a_for_aliased_account = account_alias host, a_telegram_group = tg_group_name host\<rparr>) js = Inr xs"
    by (auto simp: ws_process_account_position_def rbind_Inr_conv json_ok)
  from account_position_item_fields [OF rmap_nth [OF m]] rmap_length [OF m] show ?thesis
    unfolding items by (auto simp: list_all2_conv_all_nth)
qed

definition example_update :: "int object_t" where
  "example_update = [(''e'', J_string ''outboundAccountPosition''), (''E'', J_unsigned 1),
     (''u'', J_unsigned 1), (''B'', J_array
       [J_object [(''a'', J_string ''ETH''), (''f'', J_string ''1''), (''l'', J_string ''0'')]])]"

theorem account_position_all_or_nothing_witness:
  "length (frame_items (\<lambda>_. Some (J_object example_update)) whole_doubles example_host []) = 1"
proof -
  let ?items = "frame_items (\<lambda>_. Some (J_object example_update)) whole_doubles example_host []"
  have "?items \<noteq> []"
    by (simp add: frame_items_def interpret_frame_def parse_json_def json_get_defs get_value_integer_def
      get_integer_def ws_process_account_position_def account_position_item_def example_update_def)
  then show ?thesis
    using account_position_all_or_nothing [where parse = "\<lambda>_. Some (J_object example_update)"
      and root = example_update and items = ?items and d = whole_doubles and host = example_host
      and buffer = "[]" and js = "[J_object [(''a'', J_string ''ETH''), (''f'', J_string ''1''),
        (''l'', J_string ''0'')]]"]
    by (simp add: example_update_def)
qed

end
