(* ===== verification/Listen_Key.thy ===== *)
theory Listen_Key
  imports Async Http
begin

text \<open>
  binance_orders/src/listen_key_keepalive.cpp: \<open>listen_key_keepalive_t\<close> renews a listen key with one
  PUT request. Its handlers capture a bare \<open>this\<close>: the owner, a user data stream, destroys the
  object when the connection is severed or the next renewal starts, and a handler that was already
  queued then runs on freed memory. \<open>k_alive\<close> tells whether the object exists.
\<close>

section \<open>State\<close>

record lkk =
  k_buffer :: bool
  k_request :: "http_request option"
  k_response :: "string option"
  k_resolver :: bool
  k_stream :: bool
  k_listen_key :: string
  k_api_key :: string
  k_alive :: bool

datatype lkk_op = K_resolve | K_connect | K_handshake | K_write | K_read

datatype lkk_out = K_log string | K_sent http_request | K_received string

datatype lkk_event =
    K_resolved "string option"
  | K_connected "string option" "string option"
  | K_handshaken "string option"
  | K_written "string option"
  | K_read_done "string option" string
  | K_destroyed

type_synonym lkk_handler = "(lkk, lkk_op, lkk_out) handler"
type_synonym lkk_conf = "(lkk, lkk_op, lkk_out) conf"

definition lkk_host :: string where
  "lkk_host = ''api.binance.com''"

definition new_lkk :: "string \<Rightarrow> string \<Rightarrow> lkk" where
  "new_lkk listen_key key = \<lparr>k_buffer = False, k_request = None, k_response = None,
     k_resolver = False, k_stream = False, k_listen_key = listen_key, k_api_key = key, k_alive = True\<rparr>"

section \<open>Operations\<close>

definition lkk_resolve_name :: lkk_handler where
  "lkk_resolve_name s = ok (s\<lparr>k_resolver := True\<rparr>,
     [Emit (K_log ''Running lkk to keep it alive...''), Start K_resolve])"

definition lkk_run :: lkk_handler where
  "lkk_run = lkk_resolve_name"

definition lkk_connect_to_names :: lkk_handler where
  "lkk_connect_to_names s = ok (s\<lparr>k_resolver := False, k_stream := True\<rparr>, [Start K_connect])"

definition lkk_perform_ssl_connection :: "string option \<Rightarrow> lkk_handler" where
  "lkk_perform_ssl_connection sni s =
     (if \<not> k_stream s then raise Undefined_behaviour
      else case sni of Some msg \<Rightarrow> ok (s, [Emit (K_log msg)]) | None \<Rightarrow> ok (s, [Start K_handshake]))"

definition renewal_request :: "string \<Rightarrow> string \<Rightarrow> http_request" where
  "renewal_request listen_key key =
     set_field ''X-MBX-APIKEY'' key
     (set_field ''Accept-Language'' ''en-US,en;q=0.5 --compressed''
     (set_field ''Accept'' ''*/*''
     (set_field ''User-Agent'' ''PostmanRuntime/7.28.1''
     (set_field ''Host'' lkk_host
     (empty_request\<lparr>h_method := Verb_put,
       h_target := ''/api/v3/userDataStream?listenKey='' @ listen_key\<rparr>)))))"

definition lkk_prepare_request :: "lkk \<Rightarrow> lkk" where
  "lkk_prepare_request s = s\<lparr>k_request := Some (renewal_request (k_listen_key s) (k_api_key s))\<rparr>"

definition lkk_send_request :: lkk_handler where
  "lkk_send_request s = (case k_request s of
     None \<Rightarrow> raise Undefined_behaviour
   | Some r \<Rightarrow> (if k_stream s then ok (s, [Emit (K_sent r), Start K_write]) else raise Undefined_behaviour))"

definition renew_listen_key :: lkk_handler where
  "renew_listen_key s = lkk_send_request (lkk_prepare_request s)"

definition lkk_receive_response :: lkk_handler where
  "lkk_receive_response s =
     (if k_stream s
      then ok (s\<lparr>k_request := None, k_buffer := True, k_response := Some []\<rparr>, [Start K_read])
      else raise Undefined_behaviour)"

definition lkk_on_data_received :: lkk_handler where
  "lkk_on_data_received s = (case k_response s of
     None \<Rightarrow> raise Undefined_behaviour
   | Some body \<Rightarrow> ok (s\<lparr>k_response := None, k_buffer := False\<rparr>, [Emit (K_received body)]))"

text \<open>A handler logs its error without touching the object; otherwise it uses \<open>this\<close>.\<close>

definition on_this :: "string option \<Rightarrow> lkk_handler \<Rightarrow> lkk_handler" where
  "on_this ec h s = (case ec of
     Some msg \<Rightarrow> ok (s, [Emit (K_log msg)])
   | None \<Rightarrow> (if k_alive s then h s else raise Undefined_behaviour))"

definition lkk_destroy :: lkk_handler where
  "lkk_destroy s = ok (s\<lparr>k_alive := False\<rparr>, [])"

fun lkk_handle :: "lkk_event \<Rightarrow> lkk_handler" where
  "lkk_handle (K_resolved ec) = on_this ec lkk_connect_to_names"
| "lkk_handle (K_connected ec sni) = on_this ec (lkk_perform_ssl_connection sni)"
| "lkk_handle (K_handshaken ec) = on_this ec renew_listen_key"
| "lkk_handle (K_written ec) = on_this ec lkk_receive_response"
| "lkk_handle (K_read_done ec body) =
     on_this ec (\<lambda>s. lkk_on_data_received (if k_response s = None then s else s\<lparr>k_response := Some body\<rparr>))"
| "lkk_handle K_destroyed = lkk_destroy"

fun lkk_op_of :: "lkk_event \<Rightarrow> lkk_op option" where
  "lkk_op_of (K_resolved _) = Some K_resolve"
| "lkk_op_of (K_connected _ _) = Some K_connect"
| "lkk_op_of (K_handshaken _) = Some K_handshake"
| "lkk_op_of (K_written _) = Some K_write"
| "lkk_op_of (K_read_done _ _) = Some K_read"
| "lkk_op_of K_destroyed = None"

fun_cases lkk_call: "lkk_op_of ev = None"

definition lkk_launch :: "string \<Rightarrow> string \<Rightarrow> lkk_conf" where
  "lkk_launch listen_key key = conf_of (lkk_run (new_lkk listen_key key)) (conf_init (new_lkk listen_key key))"

abbreviation lkk_exec :: "lkk_event list \<Rightarrow> lkk_conf \<Rightarrow> lkk_conf option" where
  "lkk_exec \<equiv> run_events lkk_op_of (\<lambda>_ _. True) lkk_handle"

lemmas lkk_defs = lkk_resolve_name_def lkk_run_def lkk_connect_to_names_def
  lkk_perform_ssl_connection_def lkk_prepare_request_def lkk_send_request_def renew_listen_key_def
  lkk_receive_response_def lkk_on_data_received_def on_this_def lkk_destroy_def lkk_launch_def
  new_lkk_def

section \<open>The invariant\<close>

fun sent_requests :: "lkk_out list \<Rightarrow> http_request list" where
  "sent_requests [] = []"
| "sent_requests (K_sent r # os) = r # sent_requests os"
| "sent_requests (_ # os) = sent_requests os"

lemma sent_requests_append [simp]: "sent_requests (xs @ ys) = sent_requests xs @ sent_requests ys"
  by (induction xs rule: sent_requests.induct) auto

text \<open>The steps of the one exchange: what each operation in flight knows of the object, and what
  has been sent.\<close>

fun lkk_stage :: "lkk \<Rightarrow> http_request list \<Rightarrow> lkk_op list \<Rightarrow> bool" where
  "lkk_stage s rs [] = (length rs \<le> 1)"
| "lkk_stage s rs [K_resolve] = (rs = [])"
| "lkk_stage s rs [K_connect] = (rs = [] \<and> k_stream s)"
| "lkk_stage s rs [K_handshake] = (rs = [] \<and> k_stream s)"
| "lkk_stage s rs [K_write] = (length rs = 1 \<and> k_stream s)"
| "lkk_stage s rs [K_read] = (length rs = 1 \<and> k_response s \<noteq> None)"
| "lkk_stage s rs _ = False"

definition lkk_inv :: "lkk_conf \<Rightarrow> lkk_event list \<Rightarrow> lkk_conf \<Rightarrow> bool" where
  "lkk_inv c0 evs c \<longleftrightarrow>
     k_listen_key (obj c) = k_listen_key (obj c0) \<and> k_api_key (obj c) = k_api_key (obj c0)
     \<and> set (sent_requests (outs c)) \<subseteq> {renewal_request (k_listen_key (obj c0)) (k_api_key (obj c0))}
     \<and> (case fault c of
          None \<Rightarrow> lkk_stage (obj c) (sent_requests (outs c)) (pend c)
            \<and> (k_alive (obj c) \<longleftrightarrow> K_destroyed \<notin> set evs)
        | Some e \<Rightarrow> e = Undefined_behaviour \<and> K_destroyed \<in> set evs \<and> length (sent_requests (outs c)) \<le> 1)"

lemma lkk_stage_single: "lkk_stage s rs ps \<Longrightarrow> p \<in> set ps \<Longrightarrow> ps = [p]"
  by (cases "(s, rs, ps)" rule: lkk_stage.cases) auto

lemma lkk_stage_destroyed: "lkk_stage (s\<lparr>k_alive := b\<rparr>) rs ps = lkk_stage s rs ps"
  by (cases "(s, rs, ps)" rule: lkk_stage.cases) auto

lemma lkk_inv_start: "\<exists>l k. c = lkk_launch l k \<Longrightarrow> lkk_inv c [] c"
  by (auto simp: lkk_inv_def lkk_defs async_defs)

lemma lkk_stage_length: "lkk_stage s rs ps \<Longrightarrow> length rs \<le> 1"
  by (cases "(s, rs, ps)" rule: lkk_stage.cases) auto

lemma lkk_inv_step:
  assumes inv: "lkk_inv c0 evs c" and ev: "can_happen lkk_op_of (\<lambda>_ _. True) ev c"
  shows "lkk_inv c0 (evs @ [ev]) (happen lkk_op_of lkk_handle ev c)"
proof (cases "lkk_op_of ev")
  case None
  then have "ev = K_destroyed" by (rule lkk_call)
  with inv ev show ?thesis
    by (auto simp: lkk_inv_def can_happen_def happen_def conf_of_def lkk_destroy_def lkk_stage_destroyed)
next
  case (Some p)
  from inv ev have ok: "fault c = None" "lkk_stage (obj c) (sent_requests (outs c)) (pend c)"
    by (auto simp: lkk_inv_def can_happen_def)
  from completes_only [OF ev Some lkk_stage_single [OF ok(2)]] have "pend c = [p]" .
  with Some ok inv show ?thesis
    by (cases ev) (auto simp: lkk_inv_def happen_def conf_of_def lkk_defs Let_def split: option.splits)
qed

interpretation lk: checked_client lkk_op_of "\<lambda>_ _. True" lkk_handle
  "\<lambda>c. \<exists>l k. c = lkk_launch l k" lkk_inv "\<lambda>_ evs e. e = Undefined_behaviour \<and> K_destroyed \<in> set evs"
  by unfold_locales (erule lkk_inv_start, erule (1) lkk_inv_step, simp add: lkk_inv_def)

lemma lkk_reached: "lkk_exec evs (lkk_launch l k) = Some c \<Longrightarrow> lkk_inv (lkk_launch l k) evs c"
  by (rule lk.inv_run, assumption, intro exI, rule refl)

lemma lkk_launch_keys: "k_listen_key (obj (lkk_launch l k)) = l" "k_api_key (obj (lkk_launch l k)) = k"
  by (simp_all add: lkk_defs async_defs)

section \<open>Properties\<close>

text \<open>
  A renewal sends at most one request, the PUT for its own listen key with its own API key, and
  runs into undefined behaviour only if its owner destroys it while a handler is still to run.
\<close>

theorem lkk_one_renewal:
  assumes "lkk_exec evs (lkk_launch l k) = Some c"
  shows "sent_requests (outs c) \<in> {[], [renewal_request l k]}
    \<and> (fault c \<noteq> None \<longrightarrow> K_destroyed \<in> set evs)"
proof -
  from lkk_reached [OF assms] have sub: "set (sent_requests (outs c)) \<subseteq> {renewal_request l k}"
    and len: "length (sent_requests (outs c)) \<le> 1" and f: "fault c \<noteq> None \<longrightarrow> K_destroyed \<in> set evs"
    by (auto simp: lkk_inv_def lkk_launch_keys dest: lkk_stage_length split: option.splits)
  from len sub have "sent_requests (outs c) \<in> {[], [renewal_request l k]}"
    by (cases "sent_requests (outs c)") auto
  with f show ?thesis by blast
qed

theorem lkk_one_renewal_witness:
  "\<exists>c :: lkk_conf. sent_requests (outs c) = [renewal_request ''lk'' ''ak''] \<and> pend c = []
     \<and> (fault c \<noteq> None \<longrightarrow> K_destroyed \<in> set [])"
proof -
  obtain c where c: "lkk_exec [K_resolved None, K_connected None None, K_handshaken None, K_written None,
      K_read_done None ''{}''] (lkk_launch ''lk'' ''ak'') = Some c" "pend c = []"
      "sent_requests (outs c) = [renewal_request ''lk'' ''ak'']"
    by (simp add: lkk_defs async_defs)
  from lkk_one_renewal [OF c(1)] c(2,3) show ?thesis by auto
qed

text \<open>
  The owner's reset during a renewal is a use after free: the connect has already succeeded when
  the object is destroyed, and its queued handler dereferences \<open>this\<close>.
\<close>

theorem lkk_destroyed_in_flight:
  "\<exists>c. lkk_exec [K_resolved None, K_destroyed, K_connected None sni] (lkk_launch l k) = Some c
     \<and> fault c = Some Undefined_behaviour"
  by (simp add: lkk_defs async_defs)

end
