(* ===== verification/User_Stream.thy ===== *)
theory User_Stream
  imports Listen_Key Stream_Messages
begin

text \<open>
  binance_orders/src/user_data_stream.cpp: \<open>user_data_stream_t\<close>, which obtains a listen key over
  HTTPS, opens the WebSocket \<open>/ws/<listenKey>\<close>, turns its frames into items of the stream
  container, keeps the key alive every thirty minutes and reconnects ten seconds after the
  connection was severed.

  Every \<open>std::optional\<close> member is an \<open>option\<close>. Streams, resolvers and timers carry an identity (a
  number that grows with every object created), and an operation in flight names the object it
  was started on: destroying or replacing the object cancels the operation, whose handler then
  runs with an error. A completion event carries the error message of its \<open>error_code\<close>, \<open>None\<close> for
  success.

  The keep-alive objects of Listen_Key are part of the model: \<open>u_renewals\<close> lists all that the stream
  created, each with its own operations in flight, and \<open>u_keepalive\<close> is the pointer to the last of
  them (with the keys it was created for). The others have been destroyed, but their handlers, which
  hold a bare \<open>this\<close>, may still run.
\<close>

section \<open>State\<close>

record uds =
  u_host :: host_info_t
  u_resolver :: "nat option"
  u_stream :: "nat option"
  u_control_callback :: "nat option"
  u_buffer :: "string option"
  u_http_request :: "http_request option"
  u_http_response :: "string option"
  u_on_error_timer :: "nat option"
  u_listen_key_timer :: "nat option"
  u_keepalive :: "(string \<times> string) option"
  u_renewals :: "lkk_conf list"
  u_listen_key :: "string option"
  u_stopped :: bool
  u_fresh :: nat

datatype uds_op =
    Rest_resolve nat
  | Rest_connect nat
  | Rest_handshake nat
  | Rest_write nat
  | Rest_read nat
  | Ws_resolve nat
  | Ws_connect nat
  | Ws_ssl_handshake nat
  | Ws_handshake nat
  | Ws_read nat
  | Ws_close nat
  | Key_timer nat
  | Key_post
  | Error_timer nat

datatype uds_out =
    Log string
  | Log_exception cpp_error
  | Rest_request http_request
  | Upgrade string
  | Items "user_stream_result_t list"
  | Run_keepalive string string

datatype uds_event =
    U_rest_resolved nat "string option"
  | U_rest_connected nat "string option" "string option"
  | U_rest_handshaken nat "string option"
  | U_rest_written nat "string option"
  | U_rest_read nat "string option" string
  | U_ws_resolved nat "string option"
  | U_ws_connected nat "string option" nat "string option"
  | U_ws_ssl_handshaken nat "string option"
  | U_ws_handshaken nat "string option"
  | U_ws_read nat "string option" string "string option"
  | U_ws_closed nat string
  | U_key_timer nat "string option"
  | U_key_post
  | U_error_timer nat "string option"
  | U_renewal nat lkk_event
  | U_control_close nat "string option"
  | U_control_pong nat
  | U_stop
  | U_set_tg_group string

text \<open>
  What the stream uses of its surroundings: the JSON parser, double arithmetic, and the text that
  the memory after the literal \<open>ws_host_\<close> holds (see \<open>ws_sni_host\<close>).
\<close>

record 'f uds_env =
  e_parse :: "string \<Rightarrow> 'f json option"
  e_doubles :: "'f double_ops"
  e_text_at :: "nat \<Rightarrow> string option"

type_synonym uds_handler = "(uds, uds_op, uds_out) handler"
type_synonym uds_conf = "(uds, uds_op, uds_out) conf"

definition rest_api_host :: string where
  "rest_api_host = ''api.binance.com''"

definition ws_host :: string where
  "ws_host = ''stream.binance.com''"

definition new_uds :: "host_info_t \<Rightarrow> uds" where
  "new_uds host_info = \<lparr>u_host = host_info, u_resolver = None, u_stream = None, u_control_callback = None,
     u_buffer = None, u_http_request = None, u_http_response = None, u_on_error_timer = None,
     u_listen_key_timer = None, u_keepalive = None, u_renewals = [], u_listen_key = None, u_stopped = False,
     u_fresh = 0\<rparr>"

definition log_h :: "string \<Rightarrow> uds_handler" where
  "log_h msg s = ok (s, [Emit (Log msg)])"

text \<open>Starting an operation on \<open>*ssl_web_stream_\<close>: undefined when there is no stream.\<close>

definition on_stream :: "(nat \<Rightarrow> uds_op) \<Rightarrow> uds_handler" where
  "on_stream mk s = (case u_stream s of
     None \<Rightarrow> raise Undefined_behaviour | Some i \<Rightarrow> ok (s, [Start (mk i)]))"

section \<open>The REST phase\<close>

definition rest_api_initiate_connection :: uds_handler where
  "rest_api_initiate_connection s =
     (if u_stopped s then ok (s, [])
      else ok (s\<lparr>u_listen_key_timer := None, u_on_error_timer := None,
        u_resolver := Some (u_fresh s), u_fresh := u_fresh s + 1\<rparr>, [Start (Rest_resolve (u_fresh s))]))"

definition uds_run :: uds_handler where
  "uds_run = rest_api_initiate_connection"

definition rest_api_connect_to :: uds_handler where
  "rest_api_connect_to s =
     ok (s\<lparr>u_resolver := None, u_stream := Some (u_fresh s), u_fresh := u_fresh s + 1\<rparr>,
       [Start (Rest_connect (u_fresh s))])"

definition rest_api_perform_ssl_connection :: "string option \<Rightarrow> uds_handler" where
  "rest_api_perform_ssl_connection sni s =
     (if u_stream s = None then raise Undefined_behaviour
      else case sni of Some msg \<Rightarrow> log_h msg s | None \<Rightarrow> on_stream Rest_handshake s)"

definition rest_request :: "string \<Rightarrow> http_request" where
  "rest_request key = prepare_payload (
     set_field ''X-MBX-APIKEY'' key
     (set_field ''Accept-Language'' ''en-US,en;q=0.5 --compressed''
     (set_field ''Accept'' ''*/*''
     (set_field ''User-Agent'' ''PostmanRuntime/7.28.1''
     (set_field ''Host'' rest_api_host
     (empty_request\<lparr>h_method := Verb_post, h_target := ''/api/v3/userDataStream''\<rparr>))))))"

definition rest_api_prepare_request :: "uds \<Rightarrow> uds" where
  "rest_api_prepare_request s = s\<lparr>u_http_request := Some (rest_request (api_key (u_host s)))\<rparr>"

definition rest_api_send_request :: uds_handler where
  "rest_api_send_request s = (case u_http_request s of
     None \<Rightarrow> raise Undefined_behaviour
   | Some r \<Rightarrow> emit_then (Rest_request r) (on_stream Rest_write) s)"

definition rest_api_get_listen_key :: uds_handler where
  "rest_api_get_listen_key s = rest_api_send_request (rest_api_prepare_request s)"

definition rest_api_receive_response :: uds_handler where
  "rest_api_receive_response s =
     on_stream Rest_read (s\<lparr>u_http_request := None, u_listen_key := None, u_buffer := Some [],
       u_http_response := Some []\<rparr>)"

section \<open>The WebSocket phase\<close>

definition ws_initiate_connection :: uds_handler where
  "ws_initiate_connection s =
     (if u_stopped s \<or> u_listen_key s = None then ok (s, [])
      else ok (s\<lparr>u_stream := Some (u_fresh s), u_resolver := Some (u_fresh s + 1),
        u_fresh := u_fresh s + 2\<rparr>, [Start (Ws_resolve (u_fresh s + 1))]))"

text \<open>
  \<open>rest_api_on_data_received\<close>. A missing key logs the body and gives up; an exception (the body
  is no JSON object, or the key is no string) is logged and control goes on with no listen key.
\<close>

definition rest_api_on_data_received :: "(string \<Rightarrow> 'f json option) \<Rightarrow> string option \<Rightarrow> uds_handler" where
  "rest_api_on_data_received parse ec s =
     (case ec of
       Some msg \<Rightarrow> log_h msg s
     | None \<Rightarrow> (case u_http_response s of
         None \<Rightarrow> raise Undefined_behaviour
       | Some body \<Rightarrow>
           (case rbind (parse_json parse body) get_object of
             Inl e \<Rightarrow> emit_then (Log_exception e) ws_initiate_connection
               (s\<lparr>u_http_response := None, u_stream := None\<rparr>)
           | Inr result \<Rightarrow>
               (case map_of result ''listenKey'' of
                 None \<Rightarrow> ok (s\<lparr>u_http_response := None\<rparr>, [Emit (Log body)])
               | Some j \<Rightarrow>
                   (case get_string j of
                     Inl e \<Rightarrow> emit_then (Log_exception e) ws_initiate_connection
                       (s\<lparr>u_http_response := None, u_stream := None\<rparr>)
                   | Inr key \<Rightarrow> ws_initiate_connection
                       (s\<lparr>u_listen_key := Some key, u_http_response := None, u_stream := None\<rparr>))))))"

definition ws_connect_to_names :: uds_handler where
  "ws_connect_to_names s = on_stream Ws_connect (s\<lparr>u_resolver := None\<rparr>)"

text \<open>
  \<open>ws_host_ + ':' + std::to_string(port)\<close> adds the character code 58 to the pointer \<open>ws_host_\<close> and
  prepends whatever text starts there to the port. \<open>text_at k\<close> is the null-terminated text at
  \<open>ws_host_ + k\<close>, \<open>None\<close> where reading is not possible.
\<close>

definition ws_sni_host :: "(nat \<Rightarrow> string option) \<Rightarrow> nat \<Rightarrow> string res" where
  "ws_sni_host text_at port =
     (case text_at (of_char (CHR '':'')) of
       None \<Rightarrow> raise Undefined_behaviour
     | Some junk \<Rightarrow> ok (junk @ nat_to_string port))"

definition ws_perform_ssl_handshake ::
  "(nat \<Rightarrow> string option) \<Rightarrow> nat \<Rightarrow> string option \<Rightarrow> uds_handler" where
  "ws_perform_ssl_handshake text_at port sni s =
     rbind (ws_sni_host text_at port) (\<lambda>host.
       if u_stream s = None then raise Undefined_behaviour
       else case sni of Some msg \<Rightarrow> log_h msg s | None \<Rightarrow> on_stream Ws_ssl_handshake s)"

text \<open>\<open>u_control_callback\<close> is the stream that got a control callback, which holds \<open>shared_from_this()\<close>.\<close>

definition ws_upgrade_to_websocket :: uds_handler where
  "ws_upgrade_to_websocket s = (case u_listen_key s of
     None \<Rightarrow> raise Bad_optional_access
   | Some key \<Rightarrow> emit_then (Upgrade (''/ws/'' @ key)) (on_stream Ws_handshake) (s\<lparr>u_control_callback := u_stream s\<rparr>))"

definition on_periodic_time_timeout :: uds_handler where
  "on_periodic_time_timeout s = (case u_listen_key_timer s of
     None \<Rightarrow> raise Undefined_behaviour | Some t \<Rightarrow> ok (s, [Start (Key_timer t)]))"

definition activate_listen_key_keepalive :: uds_handler where
  "activate_listen_key_keepalive s =
     on_periodic_time_timeout (s\<lparr>u_listen_key_timer := Some (u_fresh s), u_fresh := u_fresh s + 1\<rparr>)"

definition ws_wait_for_messages :: uds_handler where
  "ws_wait_for_messages s = on_stream Ws_read (s\<lparr>u_buffer := Some []\<rparr>)"

text \<open>\<open>listen_key_keepalive_.reset()\<close>: of the objects of the list only the last can still exist.\<close>

definition destroy_renewal :: "lkk_conf \<Rightarrow> lkk_conf" where
  "destroy_renewal c = happen lkk_op_of lkk_handle K_destroyed c"

definition reset_keepalive :: "uds \<Rightarrow> uds" where
  "reset_keepalive s = s\<lparr>u_keepalive := None, u_renewals := map destroy_renewal (u_renewals s)\<rparr>"

text \<open>
  \<open>close({})\<close> is the throwing overload of Beast: \<open>cl\<close> is the error it meets, if any. The stream is
  only reset when it did not throw.
\<close>

definition on_ws_connection_severed :: "string option \<Rightarrow> uds_handler" where
  "on_ws_connection_severed cl s =
     (case (u_stream s, cl) of
       (Some _, Some msg) \<Rightarrow> raise (System_error msg)
     | _ \<Rightarrow> ok ((reset_keepalive s)\<lparr>u_stream := None, u_listen_key := None, u_listen_key_timer := None,
         u_buffer := None, u_on_error_timer := Some (u_fresh s), u_fresh := u_fresh s + 1\<rparr>, [Start (Error_timer (u_fresh s))]))"

definition ws_interpret_generic_messages :: "'f uds_env \<Rightarrow> uds_handler" where
  "ws_interpret_generic_messages env s = (case u_buffer s of
     None \<Rightarrow> raise Undefined_behaviour
   | Some buffer \<Rightarrow>
       (case interpret_frame (e_parse env) (e_doubles env) (u_host s) buffer of
         Inl e \<Rightarrow> emit_then (Log_exception e) ws_wait_for_messages s
       | Inr items \<Rightarrow> emit_then (Items items) ws_wait_for_messages s))"

section \<open>The completion handlers\<close>

definition fail_log :: "string option \<Rightarrow> uds_handler \<Rightarrow> uds_handler" where
  "fail_log ec h = (case ec of Some msg \<Rightarrow> log_h msg | None \<Rightarrow> h)"

definition uds_on_ws_ssl_handshaken :: uds_handler where
  "uds_on_ws_ssl_handshaken s =
     (if u_stream s = None then raise Undefined_behaviour else ws_upgrade_to_websocket s)"

definition uds_on_ws_handshaken :: uds_handler where
  "uds_on_ws_handshaken s =
     (if u_listen_key_timer s = None
      then seq_h activate_listen_key_keepalive ws_wait_for_messages s
      else ws_wait_for_messages s)"

definition uds_on_ws_read :: "'f uds_env \<Rightarrow> string option \<Rightarrow> string \<Rightarrow> string option \<Rightarrow> uds_handler" where
  "uds_on_ws_read env ec data cl s = (case ec of
     Some msg \<Rightarrow> emit_then (Log msg) (on_ws_connection_severed cl) s
   | None \<Rightarrow> ws_interpret_generic_messages env (s\<lparr>u_buffer := Some data\<rparr>))"

text \<open>The wait handler of \<open>on_periodic_time_timeout\<close>.\<close>

definition uds_on_key_timer :: "string option \<Rightarrow> uds_handler" where
  "uds_on_key_timer ec s =
     (if ec \<noteq> None \<or> u_stream s = None then ok (s, [])
      else case u_listen_key s of
        None \<Rightarrow> raise Undefined_behaviour
      | Some key \<Rightarrow> (if u_listen_key_timer s = None then raise Undefined_behaviour
          else ok (s\<lparr>u_keepalive := Some (key, api_key (u_host s)),
              u_renewals := map destroy_renewal (u_renewals s) @ [lkk_launch key (api_key (u_host s))]\<rparr>,
            [Emit (Run_keepalive key (api_key (u_host s))), Start Key_post])))"

text \<open>A handler of a keep-alive object, which may be one that was destroyed.\<close>

definition uds_on_renewal :: "nat \<Rightarrow> lkk_event \<Rightarrow> uds_handler" where
  "uds_on_renewal i ev s = (let c = happen lkk_op_of lkk_handle ev (u_renewals s ! i) in
     case fault c of Some e \<Rightarrow> raise e | None \<Rightarrow> ok (s\<lparr>u_renewals := (u_renewals s)[i := c]\<rparr>, []))"

text \<open>The control callback for a close frame, and \<open>stop()\<close>.\<close>

definition uds_on_control_close :: "string option \<Rightarrow> uds_handler" where
  "uds_on_control_close cl s = (if \<not> u_stopped s then on_ws_connection_severed cl s else ok (s, []))"

definition uds_stop :: uds_handler where
  "uds_stop s = (let s' = s\<lparr>u_stopped := True\<rparr> in
     case u_stream s' of None \<Rightarrow> ok (s', []) | Some i \<Rightarrow> ok (s', [Start (Ws_close i)]))"

text \<open>The object holds itself as long as its stream has a control callback.\<close>

definition holds_itself :: "uds \<Rightarrow> bool" where
  "holds_itself s \<longleftrightarrow> u_stream s \<noteq> None \<and> u_control_callback s = u_stream s"

text \<open>Every handler holds the object but that of \<open>async_close\<close>, which captures nothing.\<close>

fun is_close :: "uds_op \<Rightarrow> bool" where
  "is_close (Ws_close _) = True"
| "is_close _ = False"

definition held :: "uds_conf \<Rightarrow> bool" where
  "held c \<longleftrightarrow> holds_itself (obj c) \<or> \<not> list_all is_close (pend c)"

text \<open>
  The destructor, which runs when neither the launcher nor a handler nor the control callback of its
  stream holds the object any more. It is \<open>noexcept\<close>: an exception of \<open>close\<close> ends the program.
\<close>

definition uds_destroy :: "string option \<Rightarrow> uds \<Rightarrow> uds res" where
  "uds_destroy cl s = (case (u_stream s, cl) of
     (Some _, Some msg) \<Rightarrow> raise (System_error msg)
   | _ \<Rightarrow> ok ((reset_keepalive s)\<lparr>u_buffer := None, u_on_error_timer := None, u_listen_key_timer := None,
       u_stream := None\<rparr>))"

text \<open>\<open>process_host_changes\<close> assigns the group through \<open>host_info()\<close>.\<close>

definition uds_set_tg_group :: "string \<Rightarrow> uds_handler" where
  "uds_set_tg_group g s = ok (s\<lparr>u_host := (u_host s)\<lparr>tg_group_name := g\<rparr>\<rparr>, [])"

fun uds_handle :: "'f uds_env \<Rightarrow> uds_event \<Rightarrow> uds_handler" where
  "uds_handle env (U_rest_resolved r ec) = fail_log ec rest_api_connect_to"
| "uds_handle env (U_rest_connected i ec sni) = fail_log ec (rest_api_perform_ssl_connection sni)"
| "uds_handle env (U_rest_handshaken i ec) = fail_log ec rest_api_get_listen_key"
| "uds_handle env (U_rest_written i ec) = fail_log ec rest_api_receive_response"
| "uds_handle env (U_rest_read i ec body) = (\<lambda>s. rest_api_on_data_received (e_parse env) ec
     (if ec = None \<and> u_http_response s \<noteq> None then s\<lparr>u_http_response := Some body\<rparr> else s))"
| "uds_handle env (U_ws_resolved r ec) = fail_log ec ws_connect_to_names"
| "uds_handle env (U_ws_connected i ec port sni) =
     fail_log ec (ws_perform_ssl_handshake (e_text_at env) port sni)"
| "uds_handle env (U_ws_ssl_handshaken i ec) = fail_log ec uds_on_ws_ssl_handshaken"
| "uds_handle env (U_ws_handshaken i ec) = fail_log ec uds_on_ws_handshaken"
| "uds_handle env (U_ws_read i ec data cl) = uds_on_ws_read env ec data cl"
| "uds_handle env (U_ws_closed i msg) = log_h msg"
| "uds_handle env (U_key_timer t ec) = uds_on_key_timer ec"
| "uds_handle env U_key_post = on_periodic_time_timeout"
| "uds_handle env (U_error_timer t ec) = fail_log ec rest_api_initiate_connection"
| "uds_handle env (U_renewal i ev) = uds_on_renewal i ev"
| "uds_handle env (U_control_close i cl) = uds_on_control_close cl"
| "uds_handle env (U_control_pong i) = log_h ''pong...''"
| "uds_handle env U_stop = uds_stop"
| "uds_handle env (U_set_tg_group g) = uds_set_tg_group g"

fun uds_op_of :: "uds_event \<Rightarrow> uds_op option" where
  "uds_op_of (U_rest_resolved r _) = Some (Rest_resolve r)"
| "uds_op_of (U_rest_connected i _ _) = Some (Rest_connect i)"
| "uds_op_of (U_rest_handshaken i _) = Some (Rest_handshake i)"
| "uds_op_of (U_rest_written i _) = Some (Rest_write i)"
| "uds_op_of (U_rest_read i _ _) = Some (Rest_read i)"
| "uds_op_of (U_ws_resolved r _) = Some (Ws_resolve r)"
| "uds_op_of (U_ws_connected i _ _ _) = Some (Ws_connect i)"
| "uds_op_of (U_ws_ssl_handshaken i _) = Some (Ws_ssl_handshake i)"
| "uds_op_of (U_ws_handshaken i _) = Some (Ws_handshake i)"
| "uds_op_of (U_ws_read i _ _ _) = Some (Ws_read i)"
| "uds_op_of (U_ws_closed i _) = Some (Ws_close i)"
| "uds_op_of (U_key_timer t _) = Some (Key_timer t)"
| "uds_op_of U_key_post = Some Key_post"
| "uds_op_of (U_error_timer t _) = Some (Error_timer t)"
| "uds_op_of _ = None"

section \<open>Which completions can occur\<close>

text \<open>The object an operation was started on still exists.\<close>

fun alive :: "uds \<Rightarrow> uds_op \<Rightarrow> bool" where
  "alive s (Rest_resolve r) = (u_resolver s = Some r)"
| "alive s (Ws_resolve r) = (u_resolver s = Some r)"
| "alive s (Key_timer t) = (u_listen_key_timer s = Some t)"
| "alive s (Error_timer t) = (u_on_error_timer s = Some t)"
| "alive s Key_post = True"
| "alive s (Rest_connect i) = (u_stream s = Some i)"
| "alive s (Rest_handshake i) = (u_stream s = Some i)"
| "alive s (Rest_write i) = (u_stream s = Some i)"
| "alive s (Rest_read i) = (u_stream s = Some i)"
| "alive s (Ws_connect i) = (u_stream s = Some i)"
| "alive s (Ws_ssl_handshake i) = (u_stream s = Some i)"
| "alive s (Ws_handshake i) = (u_stream s = Some i)"
| "alive s (Ws_read i) = (u_stream s = Some i)"
| "alive s (Ws_close i) = (u_stream s = Some i)"

fun succeeds :: "uds_event \<Rightarrow> bool" where
  "succeeds (U_rest_resolved _ ec) = (ec = None)"
| "succeeds (U_rest_connected _ ec _) = (ec = None)"
| "succeeds (U_rest_handshaken _ ec) = (ec = None)"
| "succeeds (U_rest_written _ ec) = (ec = None)"
| "succeeds (U_rest_read _ ec _) = (ec = None)"
| "succeeds (U_ws_resolved _ ec) = (ec = None)"
| "succeeds (U_ws_connected _ ec _ _) = (ec = None)"
| "succeeds (U_ws_ssl_handshaken _ ec) = (ec = None)"
| "succeeds (U_ws_handshaken _ ec) = (ec = None)"
| "succeeds (U_ws_read _ ec _ _) = (ec = None)"
| "succeeds (U_key_timer _ ec) = (ec = None)"
| "succeeds (U_error_timer _ ec) = (ec = None)"
| "succeeds _ = False"

fun is_timer :: "uds_op \<Rightarrow> bool" where
  "is_timer (Key_timer _) = True"
| "is_timer (Error_timer _) = True"
| "is_timer _ = False"

text \<open>
  An operation succeeds only while its object exists. The timers run for ten seconds and for
  thirty minutes: a timer expires only when no handler is ready to run, that is, no cancelled
  operation and no posted handler is still waiting for its turn on the \<open>io_context\<close>. Control frames
  arrive during a read. The operations of the keep-alive objects are their own.
\<close>

definition handler_ready :: "uds_conf \<Rightarrow> bool" where
  "handler_ready c \<longleftrightarrow> list_ex (\<lambda>p. \<not> alive (obj c) p \<or> p = Key_post) (pend c)"

definition uds_enabled :: "uds_conf \<Rightarrow> uds_event \<Rightarrow> bool" where
  "uds_enabled c ev = (case ev of
     U_control_close i _ \<Rightarrow> Ws_read i \<in> set (pend c) \<and> alive (obj c) (Ws_read i)
   | U_renewal i e \<Rightarrow> i < length (u_renewals (obj c)) \<and> lkk_op_of e \<noteq> None
       \<and> can_happen lkk_op_of (\<lambda>_ _. True) e (u_renewals (obj c) ! i)
   | U_control_pong i \<Rightarrow> Ws_read i \<in> set (pend c) \<and> alive (obj c) (Ws_read i)
   | _ \<Rightarrow> (case uds_op_of ev of
       None \<Rightarrow> True
     | Some p \<Rightarrow> succeeds ev \<longrightarrow> alive (obj c) p \<and> (is_timer p \<longrightarrow> \<not> handler_ready c)))"

text \<open>Construction followed by \<open>run()\<close>.\<close>

definition uds_launch :: "host_info_t \<Rightarrow> uds_conf" where
  "uds_launch host = conf_of (uds_run (new_uds host)) (conf_init (new_uds host))"

abbreviation uds_exec :: "'f uds_env \<Rightarrow> uds_event list \<Rightarrow> uds_conf \<Rightarrow> uds_conf option" where
  "uds_exec env \<equiv> run_events uds_op_of uds_enabled (uds_handle env)"

lemmas uds_rest_defs = log_h_def on_stream_def rest_api_initiate_connection_def uds_run_def
  rest_api_connect_to_def rest_api_perform_ssl_connection_def rest_api_prepare_request_def
  rest_api_send_request_def rest_api_get_listen_key_def rest_api_receive_response_def
  ws_initiate_connection_def rest_api_on_data_received_def

lemmas uds_ws_defs = ws_connect_to_names_def ws_sni_host_def ws_perform_ssl_handshake_def
  ws_upgrade_to_websocket_def on_periodic_time_timeout_def activate_listen_key_keepalive_def
  ws_wait_for_messages_def on_ws_connection_severed_def ws_interpret_generic_messages_def
  fail_log_def uds_on_ws_ssl_handshaken_def uds_on_ws_handshaken_def uds_on_ws_read_def
  uds_on_key_timer_def uds_on_renewal_def reset_keepalive_def uds_on_control_close_def uds_stop_def uds_set_tg_group_def

lemmas uds_defs = uds_rest_defs uds_ws_defs

end
