(* ===== verification/User_Stream_Safety.thy ===== *)
theory User_Stream_Safety
  imports User_Stream
begin

text \<open>
  The invariant of \<open>user_data_stream_t\<close>: at most one live operation carries the connection, it
  determines which members are set, and everything else in flight is cancelled, a timer or a
  posted handler. From it: which undefined behaviours remain possible, that a stream never holds
  two connections, when it gives up, and what stopping it does.
\<close>

section \<open>Operations that carry the connection\<close>

fun main_op :: "uds_op \<Rightarrow> bool" where
  "main_op (Key_timer _) = False"
| "main_op Key_post = False"
| "main_op (Ws_close _) = False"
| "main_op _ = True"

fun op_id :: "uds_op \<Rightarrow> nat" where
  "op_id (Rest_resolve i) = i"
| "op_id (Rest_connect i) = i"
| "op_id (Rest_handshake i) = i"
| "op_id (Rest_write i) = i"
| "op_id (Rest_read i) = i"
| "op_id (Ws_resolve i) = i"
| "op_id (Ws_connect i) = i"
| "op_id (Ws_ssl_handshake i) = i"
| "op_id (Ws_handshake i) = i"
| "op_id (Ws_read i) = i"
| "op_id (Ws_close i) = i"
| "op_id (Key_timer i) = i"
| "op_id (Error_timer i) = i"
| "op_id Key_post = 0"

abbreviation live :: "uds \<Rightarrow> uds_op \<Rightarrow> bool" where
  "live s p \<equiv> main_op p \<and> alive s p"

text \<open>What holds of the object while the given operation is the live one.\<close>

fun stage_ok :: "uds \<Rightarrow> uds_op \<Rightarrow> bool" where
  "stage_ok s (Rest_read _) = (u_http_response s \<noteq> None \<and> u_listen_key_timer s = None)"
| "stage_ok s (Ws_resolve _) =
     (u_stream s \<noteq> None \<and> u_listen_key s \<noteq> None \<and> u_listen_key_timer s = None)"
| "stage_ok s (Ws_connect _) = (u_listen_key s \<noteq> None \<and> u_listen_key_timer s = None)"
| "stage_ok s (Ws_ssl_handshake _) = (u_listen_key s \<noteq> None \<and> u_listen_key_timer s = None)"
| "stage_ok s (Ws_handshake _) = (u_listen_key s \<noteq> None \<and> u_listen_key_timer s = None)"
| "stage_ok s (Ws_read _) = (u_listen_key s \<noteq> None \<and> u_listen_key_timer s \<noteq> None)"
| "stage_ok s (Error_timer _) = (u_stream s = None \<and> u_listen_key_timer s = None)"
| "stage_ok s _ = (u_listen_key_timer s = None)"

definition lives_ok :: "uds \<Rightarrow> uds_op list \<Rightarrow> bool" where
  "lives_ok s ls = (case ls of [] \<Rightarrow> u_listen_key_timer s = None | [p] \<Rightarrow> stage_ok s p | _ \<Rightarrow> False)"

fun below :: "nat \<Rightarrow> nat option \<Rightarrow> bool" where
  "below n None = True"
| "below n (Some i) = (i < n)"

lemma below_Suc [simp]: "below n x \<Longrightarrow> below (Suc n) x"
  by (cases x) auto

definition ids_below :: "uds \<Rightarrow> bool" where
  "ids_below s \<longleftrightarrow> below (u_fresh s) (u_resolver s) \<and> below (u_fresh s) (u_stream s) \<and>
     below (u_fresh s) (u_on_error_timer s) \<and> below (u_fresh s) (u_listen_key_timer s)"

fun is_error_timer :: "uds_op \<Rightarrow> bool" where
  "is_error_timer (Error_timer _) = True"
| "is_error_timer _ = False"

fun is_ws_read :: "uds_op \<Rightarrow> bool" where
  "is_ws_read (Ws_read _) = True"
| "is_ws_read _ = False"

text \<open>A cancelled operation of the connection is a reconnect timer, or the read of a severed
  connection, and then nothing but the reconnect timer is live.\<close>

definition dead_ok :: "uds \<Rightarrow> uds_op list \<Rightarrow> uds_op \<Rightarrow> bool" where
  "dead_ok s ls q \<longleftrightarrow> is_error_timer q \<or>
     is_ws_read q \<and> u_stream s = None \<and> u_listen_key_timer s = None \<and> list_all is_error_timer ls"

definition uds_ok :: "uds \<Rightarrow> uds_op list \<Rightarrow> bool" where
  "uds_ok s ps \<longleftrightarrow> ids_below s \<and> (\<forall>p\<in>set ps. p = Key_post \<or> op_id p < u_fresh s) \<and>
     lives_ok s (filter (live s) ps) \<and>
     (\<forall>q\<in>set ps. main_op q \<and> \<not> alive s q \<longrightarrow> dead_ok s (filter (live s) ps) q)"

text \<open>Objects are only created with new identities.\<close>

definition evolves_opt :: "nat \<Rightarrow> nat option \<Rightarrow> nat option \<Rightarrow> bool" where
  "evolves_opt n a b \<longleftrightarrow> b = a \<or> b = None \<or> (\<exists>k. b = Some k \<and> n \<le> k)"

definition evolves :: "uds \<Rightarrow> uds \<Rightarrow> bool" where
  "evolves s s' \<longleftrightarrow> u_fresh s \<le> u_fresh s' \<and>
     evolves_opt (u_fresh s) (u_resolver s) (u_resolver s') \<and>
     evolves_opt (u_fresh s) (u_stream s) (u_stream s') \<and>
     evolves_opt (u_fresh s) (u_on_error_timer s) (u_on_error_timer s') \<and>
     evolves_opt (u_fresh s) (u_listen_key_timer s) (u_listen_key_timer s')"

lemmas evolves_defs = evolves_def evolves_opt_def

lemma evolves_alive:
  assumes "evolves s s'" "p = Key_post \<or> op_id p < u_fresh s" "alive s' p"
  shows "alive s p"
  using assms by (cases p) (auto simp: evolves_defs)

lemma uds_okD:
  assumes "uds_ok s ps"
  shows "ids_below s" "p \<in> set ps \<Longrightarrow> p = Key_post \<or> op_id p < u_fresh s"
    "lives_ok s (filter (live s) ps)"
    "q \<in> set ps \<Longrightarrow> main_op q \<Longrightarrow> \<not> alive s q \<Longrightarrow> dead_ok s (filter (live s) ps) q"
  using assms by (auto simp: uds_ok_def)

lemma uds_ok_live_single:
  assumes "uds_ok s ps" "p \<in> set ps" "main_op p" "alive s p"
  shows "filter (live s) ps = [p]" "stage_ok s p"
proof -
  have p: "p \<in> set (filter (live s) ps)" using assms by simp
  show l: "filter (live s) ps = [p]"
  proof (cases "filter (live s) ps")
    case Nil
    with p show ?thesis by simp
  next
    case (Cons a as)
    with uds_okD(3) [OF assms(1)] have "as = []" by (simp add: lives_ok_def split: list.splits)
    with p Cons show ?thesis by simp
  qed
  then show "stage_ok s p" using uds_okD(3) [OF assms(1)] by (simp add: lives_ok_def)
qed

section \<open>The shapes of a step\<close>

text \<open>The live operation completes and hands over to the operations \<open>new\<close>.\<close>

lemma complete_live:
  assumes ok: "uds_ok s ps" and p: "p \<in> set ps" "main_op p" "alive s p"
    and ev: "evolves s s'" "ids_below s'"
    and new: "lives_ok s' (filter main_op new)"
      "\<forall>q\<in>set new. q = Key_post \<or> op_id q < u_fresh s'" "\<forall>q\<in>set new. main_op q \<longrightarrow> alive s' q"
    and timer: "is_error_timer p \<Longrightarrow> list_ex is_ws_read ps \<Longrightarrow> s' = s \<and> new = []"
  shows "uds_ok s' (remove1 p ps @ new)"
proof -
  note single = uds_ok_live_single [OF ok p]
  note sub = subsetD [OF set_remove1_subset]
  have gone: "\<not> live s q" if "q \<in> set (remove1 p ps)" for q
  proof
    assume "live s q"
    with that have "q \<in> set (filter (live s) (remove1 p ps))" by simp
    then show False by (simp add: filter_remove1 single)
  qed
  have none: "filter (live s') (remove1 p ps) = []"
    using gone uds_okD(2) [OF ok sub] evolves_alive [OF ev(1)] by (auto simp: filter_empty_conv)
  have lives: "filter (live s') (remove1 p ps @ new) = filter main_op new"
    using none new(3) by (auto intro: filter_cong)
  have dead: "dead_ok s' (filter main_op new) q"
    if q: "q \<in> set (remove1 p ps @ new)" "main_op q" "\<not> alive s' q" for q
  proof -
    from q new(3) have q1: "q \<in> set (remove1 p ps)" by auto
    from gone [OF q1] q(2) uds_okD(4) [OF ok sub [OF q1] q(2)] have d: "dead_ok s [p] q"
      by (simp add: single)
    moreover have "list_ex is_ws_read ps" if "is_ws_read q"
      using that sub [OF q1] by (auto simp: list_ex_iff)
    ultimately show ?thesis using timer by (auto simp: dead_ok_def)
  qed
  have "\<forall>q\<in>set (remove1 p ps @ new). q = Key_post \<or> op_id q < u_fresh s'"
    using new(2) uds_okD(2) [OF ok sub] ev(1) by (fastforce simp: evolves_def)
  with lives dead ev(2) new(1) show ?thesis unfolding uds_ok_def by simp
qed

text \<open>Something else than the live operation happens and leaves the objects alone.\<close>

lemma complete_side:
  assumes ok: "uds_ok s ps" and ps': "\<forall>q. q \<in> set ps' \<longrightarrow> q \<in> set ps"
      "filter (live s) ps' = filter (live s) ps"
    and same: "u_resolver s' = u_resolver s" "u_stream s' = u_stream s"
      "u_on_error_timer s' = u_on_error_timer s" "u_listen_key_timer s' = u_listen_key_timer s"
      "u_http_response s' = u_http_response s" "u_listen_key s' = u_listen_key s" "u_fresh s' = u_fresh s"
    and new: "\<forall>q\<in>set new. \<not> main_op q \<and> (q = Key_post \<or> op_id q < u_fresh s)"
  shows "uds_ok s' (ps' @ new)"
proof -
  have alive: "alive s' q = alive s q" for q by (cases q) (simp_all add: same)
  have stage: "stage_ok s' q = stage_ok s q" for q by (cases q) (simp_all add: same)
  have "filter (live s) new = []" using new by (auto simp: filter_empty_conv)
  then have lives: "filter (live s') (ps' @ new) = filter (live s) ps"
    by (simp add: alive ps'(2))
  have "lives_ok s' ls = lives_ok s ls" for ls
    by (simp add: lives_ok_def same stage split: list.splits)
  moreover have "dead_ok s' ls q = dead_ok s ls q" for ls q by (simp add: dead_ok_def same)
  ultimately show ?thesis
    using ok ps'(1) new unfolding uds_ok_def lives by (auto simp: alive same ids_below_def)
qed

text \<open>The connection is given up for a reconnect timer.\<close>

lemma complete_severed:
  assumes ok: "uds_ok s ps" and ps': "\<forall>q. q \<in> set ps' \<longrightarrow> q \<in> set ps"
    and ls: "list_all (\<lambda>q. is_ws_read q \<or> is_error_timer q) (filter (live s) ps)"
    and s': "u_stream s' = None" "u_listen_key_timer s' = None" "u_resolver s' = u_resolver s"
      "u_on_error_timer s' = Some (u_fresh s)" "u_fresh s' = u_fresh s + 1"
  shows "uds_ok s' (ps' @ [Error_timer (u_fresh s)])"
proof -
  note ids = uds_okD(2) [OF ok]
  have ev: "evolves s s'" by (simp add: evolves_defs s')
  have none: "\<not> live s' q" if q: "q \<in> set ps'" for q
  proof
    assume l: "live s' q"
    then have "q \<in> set (filter (live s) ps)" using ps'(1) ids q evolves_alive [OF ev] by auto
    with ls have "is_ws_read q \<or> is_error_timer q" by (auto simp: list_all_iff)
    with l ids [of q] ps'(1) q show False by (cases q) (auto simp: s')
  qed
  then have "filter (live s') ps' = []" by (auto simp: filter_empty_conv)
  then have lives: "filter (live s') (ps' @ [Error_timer (u_fresh s)]) = [Error_timer (u_fresh s)]"
    by (simp add: s')
  have kinds: "is_error_timer q \<or> is_ws_read q" if "q \<in> set ps'" "main_op q" for q
  proof (cases "alive s q")
    case True
    with that ps'(1) have "q \<in> set (filter (live s) ps)" by simp
    with ls show ?thesis by (auto simp: list_all_iff)
  next
    case False
    with that ps'(1) uds_okD(4) [OF ok] show ?thesis by (auto simp: dead_ok_def)
  qed
  have "ids_below s'" using uds_okD(1) [OF ok] by (auto simp: ids_below_def s')
  then show ?thesis
    using kinds ps'(1) ids unfolding uds_ok_def lives
    by (fastforce simp: lives_ok_def dead_ok_def s')
qed

section \<open>The keep-alive objects\<close>

text \<open>Each object keeps the invariant of Listen_Key, and only the last can still exist.\<close>

definition renewal_sound :: "lkk_conf \<Rightarrow> bool" where
  "renewal_sound r \<longleftrightarrow> fault r = None \<and> (\<exists>c0 evs. lkk_inv c0 evs r)"

definition renewals_ok :: "uds \<Rightarrow> bool" where
  "renewals_ok s \<longleftrightarrow> (\<forall>r\<in>set (u_renewals s). renewal_sound r)
     \<and> map (\<lambda>r. k_alive (obj r)) (u_renewals s)
       = (case u_keepalive s of None \<Rightarrow> replicate (length (u_renewals s)) False
          | Some _ \<Rightarrow> replicate (length (u_renewals s) - 1) False @ [True])"

lemma destroy_renewal_simps [simp]:
  "obj (destroy_renewal r) = (obj r)\<lparr>k_alive := False\<rparr>" "outs (destroy_renewal r) = outs r"
  "fault (destroy_renewal r) = fault r" "pend (destroy_renewal r) = pend r"
  by (simp_all add: destroy_renewal_def lkk_destroy_def async_defs)

lemma destroy_renewal_sound: "renewal_sound r \<Longrightarrow> renewal_sound (destroy_renewal r)"
proof -
  assume r: "renewal_sound r"
  then obtain c0 evs where inv: "lkk_inv c0 evs r" by (auto simp: renewal_sound_def)
  from r have "can_happen lkk_op_of (\<lambda>_ _. True) K_destroyed r" by (simp add: renewal_sound_def can_happen_def)
  from lkk_inv_step [OF inv this] have "\<exists>c0 evs. lkk_inv c0 evs (destroy_renewal r)"
    unfolding destroy_renewal_def by blast
  with r show ?thesis by (simp add: renewal_sound_def)
qed

lemma lkk_launch_sound: "renewal_sound (lkk_launch l k)" "k_alive (obj (lkk_launch l k))"
proof -
  have "lkk_inv (lkk_launch l k) [] (lkk_launch l k)" by (rule lkk_inv_start) blast
  then show "renewal_sound (lkk_launch l k)" unfolding renewal_sound_def by (auto simp: lkk_defs async_defs)
  show "k_alive (obj (lkk_launch l k))" by (simp add: lkk_defs async_defs)
qed

lemma reset_renewals_ok: "renewals_ok s \<Longrightarrow> renewals_ok (reset_keepalive s)"
  by (auto simp: renewals_ok_def reset_keepalive_def destroy_renewal_sound o_def map_replicate_const)

text \<open>A completion of an object that exists keeps all this; one of a destroyed object may be undefined.\<close>

lemma lkk_keeps_alive:
  "lkk_op_of ev \<noteq> None \<Longrightarrow> k_alive (obj (happen lkk_op_of lkk_handle ev r)) = k_alive (obj r)"
  by (cases ev) (auto simp: lkk_defs async_defs Let_def split: option.split)

lemma renewal_step:
  assumes "renewal_sound r" "lkk_op_of ev \<noteq> None" "can_happen lkk_op_of (\<lambda>_ _. True) ev r"
  shows "case fault (happen lkk_op_of lkk_handle ev r) of
      None \<Rightarrow> renewal_sound (happen lkk_op_of lkk_handle ev r)
    | Some e \<Rightarrow> e = Undefined_behaviour \<and> \<not> k_alive (obj r)"
proof -
  let ?r = "happen lkk_op_of lkk_handle ev r"
  from assms(1) obtain c0 evs where inv: "lkk_inv c0 evs r" and "fault r = None" by (auto simp: renewal_sound_def)
  with assms(2) lkk_inv_step [OF inv assms(3)] show ?thesis
    by (cases "fault ?r") (auto simp: renewal_sound_def lkk_inv_def)
qed

lemma on_renewal_ok:
  assumes ok: "renewals_ok s" and i: "i < length (u_renewals s)" "lkk_op_of ev \<noteq> None"
    "can_happen lkk_op_of (\<lambda>_ _. True) ev (u_renewals s ! i)"
  shows "case uds_on_renewal i ev s of
      Inl e \<Rightarrow> e = Undefined_behaviour \<and> \<not> k_alive (obj (u_renewals s ! i))
    | Inr (s', as) \<Rightarrow> renewals_ok s'"
proof -
  let ?r = "happen lkk_op_of lkk_handle ev (u_renewals s ! i)"
  from ok i(1) have "renewal_sound (u_renewals s ! i)" by (simp add: renewals_ok_def)
  note step = renewal_step [OF this i(2,3)]
  have "map (\<lambda>r. k_alive (obj r)) ((u_renewals s)[i := ?r])
      = (map (\<lambda>r. k_alive (obj r)) (u_renewals s))[i := map (\<lambda>r. k_alive (obj r)) (u_renewals s) ! i]"
    using i(1) by (simp add: map_update lkk_keeps_alive [OF i(2)])
  then have alive: "map (\<lambda>r. k_alive (obj r)) ((u_renewals s)[i := ?r]) = map (\<lambda>r. k_alive (obj r)) (u_renewals s)"
    by simp
  show ?thesis
  proof (cases "fault ?r")
    case None
    with step have "renewal_sound ?r" by simp
    with ok have "\<forall>r\<in>set ((u_renewals s)[i := ?r]). renewal_sound r"
      using set_update_subset_insert [of "u_renewals s" i ?r] by (auto simp: renewals_ok_def)
    with None alive ok show ?thesis by (simp add: uds_on_renewal_def renewals_ok_def split: option.split)
  next
    case (Some e)
    with step show ?thesis by (simp add: uds_on_renewal_def)
  qed
qed

lemma renewals_cong:
  "u_renewals s' = u_renewals s \<Longrightarrow> u_keepalive s' = u_keepalive s \<Longrightarrow> renewals_ok s' = renewals_ok s"
  by (simp add: renewals_ok_def split: option.split)

lemma new_renewal_ok:
  assumes "renewals_ok s"
  shows "renewals_ok (s\<lparr>u_keepalive := Some (l, k), u_renewals := map destroy_renewal (u_renewals s) @ [lkk_launch l k]\<rparr>)"
  using assms by (auto simp: renewals_ok_def destroy_renewal_sound lkk_launch_sound o_def map_replicate_const)

section \<open>Every event\<close>

text \<open>The errors an event can let escape.\<close>

fun fault_cause :: "'f uds_env \<Rightarrow> uds \<Rightarrow> uds_event \<Rightarrow> cpp_error \<Rightarrow> bool" where
  "fault_cause env s (U_ws_read _ _ _ cl) e = (\<exists>msg. cl = Some msg \<and> e = System_error msg)"
| "fault_cause env s (U_control_close _ cl) e = (\<exists>msg. cl = Some msg \<and> e = System_error msg)"
| "fault_cause env s U_key_post e = (e = Undefined_behaviour)"
| "fault_cause env s (U_ws_connected _ _ _ _) e = (e = Undefined_behaviour \<and> e_text_at env 58 = None)"
| "fault_cause env s (U_renewal i _) e = (e = Undefined_behaviour \<and> \<not> k_alive (obj (u_renewals s ! i)))"
| "fault_cause env s _ e = False"

definition step_ok :: "'f uds_env \<Rightarrow> uds_event \<Rightarrow> uds \<Rightarrow> uds_op list \<Rightarrow> bool" where
  "step_ok env ev s ps \<longleftrightarrow> (case uds_handle env ev s of
     Inl e \<Rightarrow> fault_cause env s ev e
   | Inr (s', as) \<Rightarrow>
       uds_ok s' ((case uds_op_of ev of None \<Rightarrow> ps | Some p \<Rightarrow> remove1 p ps) @ started as))"

definition event_possible :: "uds_event \<Rightarrow> uds \<Rightarrow> uds_op list \<Rightarrow> bool" where
  "event_possible ev s ps \<longleftrightarrow> (\<forall>p. uds_op_of ev = Some p \<longrightarrow> p \<in> set ps \<and>
     (succeeds ev \<longrightarrow> alive s p \<and>
       (is_timer p \<longrightarrow> \<not> list_ex (\<lambda>p. \<not> alive s p \<or> p = Key_post) ps))) \<and>
     (case ev of U_control_close i _ \<Rightarrow> Ws_read i \<in> set ps \<and> alive s (Ws_read i)
       | U_renewal i e \<Rightarrow> i < length (u_renewals s) \<and> lkk_op_of e \<noteq> None
           \<and> can_happen lkk_op_of (\<lambda>_ _. True) e (u_renewals s ! i)
       | _ \<Rightarrow> True)"

lemma filter_live_remove_dead: "\<not> live s p \<Longrightarrow> filter (live s) (remove1 p ps) = filter (live s) ps"
  by (simp add: filter_remove1 remove1_idem)

text \<open>A failed operation other than a read is logged.\<close>

lemma failed_op:
  assumes "uds_ok s ps" "p \<in> set ps" "\<not> is_ws_read p"
  shows "uds_ok s (remove1 p ps)"
proof (cases "live s p")
  case True
  then have "stage_ok s p" using uds_ok_live_single [OF assms(1,2)] by simp
  with True assms(3) have "u_listen_key_timer s = None" by (cases p) auto
  with True assms complete_live [OF assms(1,2), of s "[]"] show ?thesis
    by (simp add: uds_okD(1) [OF assms(1)] evolves_defs lives_ok_def)
next
  case False
  have sub: "\<forall>q. q \<in> set (remove1 p ps) \<longrightarrow> q \<in> set ps" using set_remove1_subset [of p ps] by blast
  from complete_side [OF assms(1) sub filter_live_remove_dead [OF False], of s "[]"] show ?thesis
    by simp
qed

lemma advance:
  assumes "uds_ok s ps" "p \<in> set ps" "live s p" "\<not> is_error_timer p"
    and "evolves s s'" "ids_below s'" "lives_ok s' (filter main_op new)"
    and "\<forall>q\<in>set new. q = Key_post \<or> op_id q < u_fresh s'" "\<forall>q\<in>set new. main_op q \<longrightarrow> alive s' q"
  shows "uds_ok s' (remove1 p ps @ new)"
  using complete_live [OF assms(1,2) _ _ assms(5-9)] assms(3,4) by blast

text \<open>Failure of an operation is logged; so only its success is left to look at.\<close>

lemma step_by_success:
  assumes ok: "uds_ok s ps" and ev: "event_possible ev s ps" "uds_op_of ev = Some p" "main_op p"
      "\<not> is_ws_read p" "\<And>msg. ec = Some msg \<Longrightarrow> uds_handle env ev s = log_h msg s"
      "succeeds ev \<longleftrightarrow> ec = None"
    and success: "p \<in> set ps \<Longrightarrow> live s p \<Longrightarrow> stage_ok s p \<Longrightarrow> ids_below s \<Longrightarrow> ec = None \<Longrightarrow> step_ok env ev s ps"
  shows "step_ok env ev s ps"
proof (cases ec)
  case None
  with ev have p: "p \<in> set ps" "live s p" by (auto simp: event_possible_def)
  with uds_ok_live_single [OF ok] have "stage_ok s p" by blast
  from success [OF p this uds_okD(1) [OF ok] None] show ?thesis .
next
  case (Some m)
  with ev failed_op [OF ok, of p] show ?thesis by (simp add: step_ok_def log_h_def event_possible_def)
qed

lemmas shape_defs = evolves_defs ids_below_def lives_ok_def

lemma step_rest_resolved:
  assumes ok: "uds_ok s ps" and ev: "event_possible (U_rest_resolved r ec) s ps"
  shows "step_ok env (U_rest_resolved r ec) s ps"
proof (rule step_by_success [OF assms, where p = "Rest_resolve r" and ec = ec])
  assume p: "Rest_resolve r \<in> set ps" "live s (Rest_resolve r)"
    and h: "stage_ok s (Rest_resolve r)" "ids_below s" "ec = None"
  from h p show "step_ok env (U_rest_resolved r ec) s ps"
    by (simp add: step_ok_def uds_defs) (intro advance [OF ok p]; auto simp: shape_defs)
qed (simp_all add: uds_defs)

lemma step_rest_connected:
  assumes ok: "uds_ok s ps" and ev: "event_possible (U_rest_connected i ec sni) s ps"
  shows "step_ok env (U_rest_connected i ec sni) s ps"
proof (rule step_by_success [OF assms, where p = "Rest_connect i" and ec = ec])
  assume p: "Rest_connect i \<in> set ps" "live s (Rest_connect i)"
    and h: "stage_ok s (Rest_connect i)" "ids_below s" "ec = None"
  from h p failed_op [OF ok p(1)] show "step_ok env (U_rest_connected i ec sni) s ps"
    by (cases sni; simp add: step_ok_def uds_defs) (intro advance [OF ok p]; auto simp: shape_defs)
qed (simp_all add: uds_defs)

lemma step_rest_handshaken:
  assumes ok: "uds_ok s ps" and ev: "event_possible (U_rest_handshaken i ec) s ps"
  shows "step_ok env (U_rest_handshaken i ec) s ps"
proof (rule step_by_success [OF assms, where p = "Rest_handshake i" and ec = ec])
  assume p: "Rest_handshake i \<in> set ps" "live s (Rest_handshake i)"
    and h: "stage_ok s (Rest_handshake i)" "ids_below s" "ec = None"
  from h p show "step_ok env (U_rest_handshaken i ec) s ps"
    by (simp add: step_ok_def uds_defs emit_then_def) (intro advance [OF ok p]; auto simp: shape_defs)
qed (simp_all add: uds_defs)

lemma step_rest_written:
  assumes ok: "uds_ok s ps" and ev: "event_possible (U_rest_written i ec) s ps"
  shows "step_ok env (U_rest_written i ec) s ps"
proof (rule step_by_success [OF assms, where p = "Rest_write i" and ec = ec])
  assume p: "Rest_write i \<in> set ps" "live s (Rest_write i)"
    and h: "stage_ok s (Rest_write i)" "ids_below s" "ec = None"
  from h p show "step_ok env (U_rest_written i ec) s ps"
    by (simp add: step_ok_def uds_defs) (intro advance [OF ok p]; auto simp: shape_defs)
qed (simp_all add: uds_defs)

lemma step_rest_read:
  assumes ok: "uds_ok s ps" and ev: "event_possible (U_rest_read i ec body) s ps"
  shows "step_ok env (U_rest_read i ec body) s ps"
proof (rule step_by_success [OF assms, where p = "Rest_read i" and ec = ec])
  assume p: "Rest_read i \<in> set ps" "live s (Rest_read i)"
    and h: "stage_ok s (Rest_read i)" "ids_below s" "ec = None"
  from h p show "step_ok env (U_rest_read i ec body) s ps"
    by (simp add: step_ok_def uds_defs emit_then_def split: option.split sum.split)
      (auto intro!: advance [OF ok p] advance [OF ok p, where new = "[]", simplified]
        simp: shape_defs)
qed (simp_all add: uds_defs)

lemma step_ws_resolved:
  assumes ok: "uds_ok s ps" and ev: "event_possible (U_ws_resolved r ec) s ps"
  shows "step_ok env (U_ws_resolved r ec) s ps"
proof (rule step_by_success [OF assms, where p = "Ws_resolve r" and ec = ec])
  assume p: "Ws_resolve r \<in> set ps" "live s (Ws_resolve r)"
    and h: "stage_ok s (Ws_resolve r)" "ids_below s" "ec = None"
  from h p show "step_ok env (U_ws_resolved r ec) s ps"
    by (simp add: step_ok_def uds_defs split: option.split)
      (intro allI impI advance [OF ok p]; auto simp: shape_defs)
qed (simp_all add: uds_defs)

lemma step_ws_connected:
  assumes ok: "uds_ok s ps" and ev: "event_possible (U_ws_connected i ec port sni) s ps"
  shows "step_ok env (U_ws_connected i ec port sni) s ps"
proof (rule step_by_success [OF assms, where p = "Ws_connect i" and ec = ec])
  assume p: "Ws_connect i \<in> set ps" "live s (Ws_connect i)"
    and h: "stage_ok s (Ws_connect i)" "ids_below s" "ec = None"
  from h p failed_op [OF ok p(1)] show "step_ok env (U_ws_connected i ec port sni) s ps"
    by (cases sni; cases "e_text_at env 58"; simp add: step_ok_def uds_defs)
      (intro advance [OF ok p]; auto simp: shape_defs)
qed (simp_all add: uds_defs)

lemma step_ws_ssl:
  assumes ok: "uds_ok s ps" and ev: "event_possible (U_ws_ssl_handshaken i ec) s ps"
  shows "step_ok env (U_ws_ssl_handshaken i ec) s ps"
proof (rule step_by_success [OF assms, where p = "Ws_ssl_handshake i" and ec = ec])
  assume p: "Ws_ssl_handshake i \<in> set ps" "live s (Ws_ssl_handshake i)"
    and h: "stage_ok s (Ws_ssl_handshake i)" "ids_below s" "ec = None"
  from h p show "step_ok env (U_ws_ssl_handshaken i ec) s ps"
    by (auto simp add: step_ok_def uds_defs emit_then_def intro!: advance [OF ok p] simp: shape_defs)
qed (simp_all add: uds_defs)

lemma step_ws_handshaken:
  assumes ok: "uds_ok s ps" and ev: "event_possible (U_ws_handshaken i ec) s ps"
  shows "step_ok env (U_ws_handshaken i ec) s ps"
proof (rule step_by_success [OF assms, where p = "Ws_handshake i" and ec = ec])
  assume p: "Ws_handshake i \<in> set ps" "live s (Ws_handshake i)"
    and h: "stage_ok s (Ws_handshake i)" "ids_below s" "ec = None"
  from h p show "step_ok env (U_ws_handshaken i ec) s ps"
    by (auto simp add: step_ok_def uds_defs seq_h_def intro!: advance [OF ok p] simp: shape_defs)
qed (simp_all add: uds_defs)

text \<open>The connection was severed, found by a read or by a close frame.\<close>

lemma severed:
  assumes ok: "uds_ok s ps" and sub: "\<forall>q. q \<in> set ps' \<longrightarrow> q \<in> set ps"
    and ls: "list_all (\<lambda>q. is_ws_read q \<or> is_error_timer q) (filter (live s) ps)"
  shows "case on_ws_connection_severed cl s of
      Inl e \<Rightarrow> \<exists>msg. cl = Some msg \<and> e = System_error msg
    | Inr (s', as) \<Rightarrow> uds_ok s' (ps' @ started as)"
proof (cases "u_stream s \<noteq> None \<and> cl \<noteq> None")
  case True
  then show ?thesis by (auto simp: on_ws_connection_severed_def)
next
  case False
  let ?s = "(reset_keepalive s)\<lparr>u_stream := None, u_listen_key := None, u_listen_key_timer := None,
         u_buffer := None, u_on_error_timer := Some (u_fresh s), u_fresh := u_fresh s + 1\<rparr>"
  from False have "on_ws_connection_severed cl s = ok (?s, [Start (Error_timer (u_fresh s))])"
    by (auto simp: on_ws_connection_severed_def split: option.split)
  with complete_severed [OF ok sub ls, of ?s] show ?thesis by (simp add: reset_keepalive_def)
qed

lemma remove1_sub: "\<forall>q. q \<in> set (remove1 p ps) \<longrightarrow> q \<in> set ps"
  using set_remove1_subset [of p ps] by blast

lemma read_lives:
  assumes "uds_ok s ps" "Ws_read i \<in> set ps"
  shows "list_all (\<lambda>q. is_ws_read q \<or> is_error_timer q) (filter (live s) ps)"
proof (cases "alive s (Ws_read i)")
  case True
  with uds_ok_live_single(1) [OF assms] show ?thesis by simp
next
  case False
  with uds_okD(4) [OF assms] show ?thesis by (auto simp: dead_ok_def list_all_iff)
qed

lemma step_ws_read:
  assumes ok: "uds_ok s ps" and ev: "event_possible (U_ws_read i ec data cl) s ps"
  shows "step_ok env (U_ws_read i ec data cl) s ps"
proof (cases ec)
  case None
  with ev have p: "Ws_read i \<in> set ps" "live s (Ws_read i)" by (simp_all add: event_possible_def)
  from uds_ok_live_single(2) [OF ok] p have h: "stage_ok s (Ws_read i)" by blast
  from None h p uds_okD(1) [OF ok] show ?thesis
    by (auto simp: step_ok_def uds_defs emit_then_def shape_defs intro!: advance [OF ok p]
        split: sum.split)
next
  case (Some msg)
  with ev have "Ws_read i \<in> set ps" by (simp add: event_possible_def)
  from severed [OF ok remove1_sub [of "Ws_read i" ps] read_lives [OF ok this], of cl] Some show ?thesis
    by (auto simp: step_ok_def uds_on_ws_read_def emit_then_def split: sum.splits)
qed

text \<open>Events that are no operation of the connection.\<close>

lemma side:
  assumes ok: "uds_ok s ps" and p: "\<not> main_op p"
    and same: "u_resolver s' = u_resolver s" "u_stream s' = u_stream s"
      "u_on_error_timer s' = u_on_error_timer s" "u_listen_key_timer s' = u_listen_key_timer s"
      "u_http_response s' = u_http_response s" "u_listen_key s' = u_listen_key s" "u_fresh s' = u_fresh s"
    and new: "\<forall>q\<in>set new. \<not> main_op q \<and> (q = Key_post \<or> op_id q < u_fresh s)"
  shows "uds_ok s' (remove1 p ps @ new)"
proof -
  from p have "\<not> live s p" by simp
  from complete_side [OF ok remove1_sub filter_live_remove_dead [OF this] same new] show ?thesis .
qed

lemmas side_none = side [where new = "[]", simplified]

lemma timer_key:
  assumes "uds_ok s ps" "u_listen_key_timer s \<noteq> None"
  shows "u_listen_key s \<noteq> None"
proof -
  from uds_okD(3) [OF assms(1)] assms(2) obtain p where "stage_ok s p"
    by (auto simp: lives_ok_def split: list.splits)
  with assms(2) show ?thesis by (cases p) auto
qed

lemma step_key_timer:
  assumes ok: "uds_ok s ps" and ev: "event_possible (U_key_timer t ec) s ps"
  shows "step_ok env (U_key_timer t ec) s ps"
proof (cases "ec \<noteq> None \<or> u_stream s = None")
  case True
  then show ?thesis by (auto simp: step_ok_def uds_on_key_timer_def intro: side_none [OF ok])
next
  case False
  with ev have "u_listen_key_timer s = Some t" by (simp add: event_possible_def)
  with False timer_key [OF ok] show ?thesis
    by (auto simp: step_ok_def uds_on_key_timer_def intro!: side [OF ok])
qed

lemma step_key_post:
  assumes ok: "uds_ok s ps"
  shows "step_ok env U_key_post s ps"
  using uds_okD(1) [OF ok]
  by (auto simp: step_ok_def on_periodic_time_timeout_def ids_below_def intro!: side [OF ok]
      split: option.split)

lemma step_error_timer:
  assumes ok: "uds_ok s ps" and ev: "event_possible (U_error_timer t ec) s ps"
  shows "step_ok env (U_error_timer t ec) s ps"
proof (rule step_by_success [OF assms, where p = "Error_timer t" and ec = ec])
  assume p: "Error_timer t \<in> set ps" "live s (Error_timer t)" and ec: "ec = None"
    and h: "stage_ok s (Error_timer t)" "ids_below s"
  have no_read: "\<not> list_ex is_ws_read ps"
  proof
    assume "list_ex is_ws_read ps"
    then obtain i where i: "Ws_read i \<in> set ps" by (auto simp: list_ex_iff elim: is_ws_read.elims)
    with ev ec have "alive s (Ws_read i)" by (auto simp: event_possible_def list_ex_iff)
    with uds_ok_live_single(1) [OF ok i] uds_ok_live_single(1) [OF ok p(1)] p(2) show False by simp
  qed
  note live = complete_live [OF ok p(1)]
  show "step_ok env (U_error_timer t ec) s ps"
  proof (cases "u_stopped s")
    case True
    with ec h p live [of s "[]"] show ?thesis
      by (simp add: step_ok_def uds_defs shape_defs)
  next
    case False
    with ec h p no_read show ?thesis
      by (auto simp: step_ok_def uds_defs shape_defs intro!: live)
  qed
qed (simp_all add: uds_defs)

lemma step_control_close:
  assumes ok: "uds_ok s ps" and ev: "event_possible (U_control_close i cl) s ps"
  shows "step_ok env (U_control_close i cl) s ps"
proof -
  from ev have "Ws_read i \<in> set ps" by (simp add: event_possible_def)
  from severed [OF ok _ read_lives [OF ok this], of ps cl] ok show ?thesis
    by (auto simp: step_ok_def uds_on_control_close_def split: sum.splits)
qed

lemma step_stop:
  assumes ok: "uds_ok s ps"
  shows "step_ok env U_stop s ps"
proof -
  note side = complete_side [OF ok _ refl, of "s\<lparr>u_stopped := True\<rparr>"]
  show ?thesis
  proof (cases "u_stream s")
    case None
    with side [of "[]"] show ?thesis by (simp add: step_ok_def uds_stop_def Let_def)
  next
    case (Some i)
    with uds_okD(1) [OF ok] side [of "[Ws_close i]"] show ?thesis
      by (simp add: step_ok_def uds_stop_def ids_below_def Let_def)
  qed
qed

lemma step_set_group:
  assumes ok: "uds_ok s ps"
  shows "step_ok env (U_set_tg_group g) s ps"
  using complete_side [OF ok _ refl, of "s\<lparr>u_host := (u_host s)\<lparr>tg_group_name := g\<rparr>\<rparr>" "[]"]
  by (simp add: step_ok_def uds_set_tg_group_def)

lemma step_renewal:
  assumes ok: "uds_ok s ps" and rs: "renewals_ok s" and ev: "event_possible (U_renewal i e) s ps"
  shows "step_ok env (U_renewal i e) s ps"
proof -
  from ev have "case uds_on_renewal i e s of Inl e \<Rightarrow> e = Undefined_behaviour \<and> \<not> k_alive (obj (u_renewals s ! i))
      | Inr (s', as) \<Rightarrow> renewals_ok s'"
    by (intro on_renewal_ok [OF rs]) (simp_all add: event_possible_def)
  with complete_side [OF ok _ refl, of "s\<lparr>u_renewals := rs\<rparr>" "[]" for rs] show ?thesis
    by (auto simp: step_ok_def uds_on_renewal_def Let_def split: option.splits)
qed

lemma uds_step:
  assumes ok: "uds_ok s ps" and rs: "renewals_ok s" and ev: "event_possible ev s ps"
  shows "step_ok env ev s ps"
proof (cases ev)
  case (U_ws_closed i msg)
  then show ?thesis by (simp add: step_ok_def log_h_def side_none [OF ok])
next
  case (U_control_pong i)
  with ok show ?thesis by (simp add: step_ok_def log_h_def)
qed (use assms in \<open>auto intro: step_rest_resolved step_rest_connected step_rest_handshaken
  step_rest_written step_rest_read step_ws_resolved step_ws_connected step_ws_ssl step_ws_handshaken
  step_ws_read step_key_timer step_key_post step_error_timer step_control_close step_stop step_set_group step_renewal\<close>)

text \<open>Every handler keeps the keep-alive objects sound.\<close>

lemma severed_renewals:
  "renewals_ok s \<Longrightarrow> on_ws_connection_severed cl s = Inr (s', as) \<Longrightarrow> renewals_ok s'"
  using reset_renewals_ok [of s] renewals_cong [of s' "reset_keepalive s"]
  by (auto simp: on_ws_connection_severed_def split: option.splits)

fun renews :: "uds_event \<Rightarrow> bool" where
  "renews (U_key_timer _ _) = True"
| "renews (U_renewal _ _) = True"
| "renews (U_ws_read _ (Some _) _ _) = True"
| "renews (U_control_close _ _) = True"
| "renews _ = False"

lemma other_handlers:
  "\<not> renews ev \<Longrightarrow> uds_handle env ev s = Inr (s', as) \<Longrightarrow>
   u_renewals s' = u_renewals s \<and> u_keepalive s' = u_keepalive s"
  by (cases ev rule: renews.cases)
    (auto simp: uds_defs async_defs Let_def split: option.splits sum.splits if_splits)

lemma handle_renewals:
  assumes ok: "renewals_ok s" and h: "uds_handle env ev s = Inr (s', as)" and ev: "event_possible ev s ps"
  shows "renewals_ok s'"
proof (cases "renews ev")
  case False
  with other_handlers [OF False h] renewals_cong [of s' s] ok show ?thesis by blast
next
  case True
  show ?thesis
  proof (cases ev)
    case (U_renewal i e)
    with h ev on_renewal_ok [OF ok, of i e] show ?thesis by (auto simp: event_possible_def)
  next
    case (U_key_timer t ec)
    with h ok new_renewal_ok [OF ok] show ?thesis
      by (auto simp: uds_on_key_timer_def split: option.splits if_splits)
  next
    case (U_ws_read i ec data cl)
    with True h severed_renewals [OF ok] show ?thesis
      by (cases ec) (auto simp: uds_on_ws_read_def emit_then_def res_simps)
  next
    case (U_control_close i cl)
    with h severed_renewals [OF ok] ok show ?thesis by (auto simp: uds_on_control_close_def split: if_splits)
  qed (use True in simp_all)
qed

section \<open>Every run\<close>

definition uds_inv :: "'f uds_env \<Rightarrow> uds_conf \<Rightarrow> uds_event list \<Rightarrow> uds_conf \<Rightarrow> bool" where
  "uds_inv env c0 evs c \<longleftrightarrow> renewals_ok (obj c) \<and> (case fault c of
     None \<Rightarrow> uds_ok (obj c) (pend c)
   | Some e \<Rightarrow> evs \<noteq> [] \<and> fault_cause env (obj c) (last evs) e)"

lemma possible:
  "can_happen uds_op_of uds_enabled ev c \<Longrightarrow> fault c = None \<and> event_possible ev (obj c) (pend c)"
  by (cases ev) (auto simp: can_happen_def uds_enabled_def event_possible_def handler_ready_def)

lemma uds_inv_start: "\<exists>host. c = uds_launch host \<Longrightarrow> uds_inv env c [] c"
  by (auto simp: uds_inv_def uds_launch_def uds_run_def rest_api_initiate_connection_def new_uds_def
      conf_of_def conf_init_def uds_ok_def ids_below_def lives_ok_def renewals_ok_def)

lemma uds_inv_step:
  assumes inv: "uds_inv env c0 evs c" and ev: "can_happen uds_op_of uds_enabled ev c"
  shows "uds_inv env c0 (evs @ [ev]) (happen uds_op_of (uds_handle env) ev c)"
proof -
  from possible [OF ev] inv have ok: "uds_ok (obj c) (pend c)" "renewals_ok (obj c)" "fault c = None"
    by (auto simp: uds_inv_def)
  from possible [OF ev] have pos: "event_possible ev (obj c) (pend c)" by blast
  from uds_step [OF ok(1,2) pos, of env] handle_renewals [OF ok(2) _ pos, of env] ok(2,3) show ?thesis
    by (cases "uds_handle env ev (obj c)")
      (auto simp: uds_inv_def step_ok_def happen_def conf_of_def Let_def split: option.splits)
qed

interpretation us: checked_client uds_op_of uds_enabled "uds_handle env"
  "\<lambda>c. \<exists>host. c = uds_launch host" "uds_inv env"
  "\<lambda>c evs e. evs \<noteq> [] \<and> fault_cause env (obj c) (last evs) e" for env :: "'f uds_env"
  by unfold_locales (erule uds_inv_start, erule (1) uds_inv_step, simp add: uds_inv_def)

lemma uds_reached:
  "uds_exec env evs (uds_launch host) = Some c \<Longrightarrow> uds_inv env (uds_launch host) evs c"
  by (rule us.inv_run, assumption, intro exI, rule refl)

lemma uds_reached_ok:
  "uds_exec env evs (uds_launch host) = Some c \<Longrightarrow> fault c = None \<Longrightarrow> uds_ok (obj c) (pend c)"
  using uds_reached by (fastforce simp: uds_inv_def)

end
