(* ===== verification/User_Stream_Properties.thy ===== *)
theory User_Stream_Properties
  imports User_Stream_Safety
begin

text \<open>
  What the invariant of \<open>user_data_stream_t\<close> means for its users: which errors can escape its
  handlers, that it never holds two connections, what it delivers, when it gives up for good and
  what \<open>stop()\<close> achieves. Concrete runs show the behaviours that remain.
\<close>

section \<open>Concrete runs\<close>

definition key_env :: "int uds_env" where
  "key_env = \<lparr>e_parse = (\<lambda>s. if s = ''key'' then Some (J_object [(''listenKey'', J_string ''k1'')])
       else if s = ''balance'' then Some (J_object [(''e'', J_string ''balanceUpdate''),
         (''a'', J_string ''BTC''), (''d'', J_string ''5''), (''E'', J_integer 0), (''T'', J_integer 0)])
       else None),
     e_doubles = whole_doubles, e_text_at = (\<lambda>n. Some [])\<rparr>"

definition watched_host :: host_info_t where
  "watched_host = \<lparr>account_alias = ''main'', api_key = ''key1'', secret_key = ''sec1'',
     tg_group_name = ''traders'', changes = no_changes\<rparr>"

definition rest_run :: "uds_event list" where
  "rest_run = [U_rest_resolved 0 None, U_rest_connected 1 None None, U_rest_handshaken 1 None,
     U_rest_written 1 None, U_rest_read 1 None ''key'']"

definition connect_run :: "uds_event list" where
  "connect_run = rest_run @ [U_ws_resolved 3 None, U_ws_connected 2 None 9443 None,
     U_ws_ssl_handshaken 2 None, U_ws_handshaken 2 None]"

text \<open>The keep-alive timer expires, then the connection is lost before the posted handler runs.\<close>

definition key_post_race :: "uds_event list" where
  "key_post_race = connect_run @ [U_key_timer 4 None, U_ws_read 2 (Some ''eof'') [] None, U_key_post]"

lemmas run_defs = key_env_def rest_run_def connect_run_def key_post_race_def watched_host_def

lemmas compute_run = run_defs uds_launch_def new_uds_def uds_defs async_defs Let_def uds_enabled_def
  handler_ready_def parse_json_def get_object_def get_string_def

section \<open>Errors\<close>


text \<open>
  The keep-alive race is real: the timer expires and posts \<open>on_periodic_time_timeout\<close>, the
  connection is severed and destroys the timer, and the posted handler uses it.
\<close>

theorem uds_key_post_race:
  "\<exists>c. uds_exec key_env key_post_race (uds_launch host) = Some c
     \<and> fault c = Some Undefined_behaviour \<and> last key_post_race = U_key_post"
  by (simp add: compute_run)


section \<open>One connection\<close>

text \<open>
  C6. At any time at most one operation in flight belongs to a connection that still exists: the
  stream never opens a second connection, reads twice, or reconnects while it is connected.
\<close>

theorem uds_single_connection:
  assumes "uds_exec env evs (uds_launch host) = Some c" "fault c = None"
  shows "length (filter (live (obj c)) (pend c)) \<le> 1"
  using uds_okD(3) [OF uds_reached_ok [OF assms]] by (auto simp: lives_ok_def split: list.splits)

theorem uds_single_connection_witness:
  "\<exists>c :: uds_conf. filter (live (obj c)) (pend c) = [Ws_read 2]
     \<and> length (filter (live (obj c)) (pend c)) \<le> 1"
proof -
  obtain c where c: "uds_exec key_env connect_run (uds_launch watched_host) = Some c"
    "fault c = None" "filter (live (obj c)) (pend c) = [Ws_read 2]" by (simp add: compute_run)
  from uds_single_connection [OF c(1,2)] c(3) show ?thesis by metis
qed

section \<open>Delivery\<close>

fun items_of :: "uds_out list \<Rightarrow> user_stream_result_t list" where
  "items_of [] = []"
| "items_of (Items xs # os) = xs @ items_of os"
| "items_of (_ # os) = items_of os"

lemma items_of_append [simp]: "items_of (xs @ ys) = items_of xs @ items_of ys"
  by (induction xs rule: items_of.induct) auto

text \<open>The items of the frames that were read, tagged with the group name of the moment.\<close>

fun received :: "'f uds_env \<Rightarrow> host_info_t \<Rightarrow> uds_event list \<Rightarrow> user_stream_result_t list" where
  "received env host [] = []"
| "received env host (U_ws_read i None data cl # evs) =
     frame_items (e_parse env) (e_doubles env) host data @ received env host evs"
| "received env host (U_set_tg_group g # evs) = received env (host\<lparr>tg_group_name := g\<rparr>) evs"
| "received env host (_ # evs) = received env host evs"

definition host_after :: "uds_event \<Rightarrow> host_info_t \<Rightarrow> host_info_t" where
  "host_after ev host = (case ev of U_set_tg_group g \<Rightarrow> host\<lparr>tg_group_name := g\<rparr> | _ \<Rightarrow> host)"

lemma received_Cons:
  "received env host (ev # evs) = received env host [ev] @ received env (host_after ev host) evs"
  by (cases "(env, host, ev # evs)" rule: received.cases) (simp_all add: host_after_def)

lemma uds_handle_items:
  assumes "can_happen uds_op_of uds_enabled ev c"
  shows "items_of (outs (happen uds_op_of (uds_handle env) ev c))
      = items_of (outs c) @ received env (u_host (obj c)) [ev]"
    and "fault (happen uds_op_of (uds_handle env) ev c) = None \<Longrightarrow>
      u_host (obj (happen uds_op_of (uds_handle env) ev c)) = host_after ev (u_host (obj c))"
  using assms
  by (cases "(env, u_host (obj c), [ev])" rule: received.cases;
      auto simp: async_defs uds_defs Let_def uds_enabled_def frame_items_def host_after_def
        split: option.split sum.split)+

lemma run_items:
  "uds_exec env evs c = Some c' \<Longrightarrow>
   items_of (outs c') = items_of (outs c) @ received env (u_host (obj c)) evs"
proof (induction evs arbitrary: c)
  case Nil
  then show ?case by simp
next
  case (Cons ev evs)
  let ?c = "happen uds_op_of (uds_handle env) ev c"
  from Cons.prems have ev: "can_happen uds_op_of uds_enabled ev c"
    and run: "uds_exec env evs ?c = Some c'" by (simp_all split: if_splits)
  have "received env (u_host (obj ?c)) evs = received env (host_after ev (u_host (obj c))) evs"
  proof (cases "fault ?c")
    case None
    from uds_handle_items(2) [OF ev this] show ?thesis by simp
  next
    case (Some e)
    with run have "evs = []" by (cases evs) (auto simp: can_happen_def)
    then show ?thesis by simp
  qed
  with Cons.IH [OF run] uds_handle_items(1) [OF ev] received_Cons [of env _ ev evs] show ?case
    by simp
qed

text \<open>
  C24. What the stream puts into the stream container is exactly the items of the frames it read,
  in order and each frame once, through reconnections, keep-alives and group changes; frames that
  do not parse contribute nothing.
\<close>

theorem uds_delivers_frames:
  assumes "uds_exec env evs (uds_launch host) = Some c"
  shows "items_of (outs c) = received env host evs"
  using run_items [OF assms] by (simp add: uds_launch_def uds_defs new_uds_def async_defs)

lemmas frame_defs = interpret_frame_def ws_process_balance_update_def get_value_string_def
  get_value_integer_def obj_at_def get_integer_def frame_items_def

theorem uds_delivers_frames_witness:
  "\<exists>c :: uds_conf. length (items_of (outs c)) = 1
     \<and> items_of (outs c) = received key_env watched_host (connect_run @ [U_ws_read 2 None ''balance'' None])"
proof -
  obtain c where c: "uds_exec key_env (connect_run @ [U_ws_read 2 None ''balance'' None])
    (uds_launch watched_host) = Some c" by (simp add: compute_run frame_defs)
  have "length (received key_env watched_host (connect_run @ [U_ws_read 2 None ''balance'' None])) = 1"
    by (simp add: run_defs frame_defs parse_json_def get_object_def get_string_def)
  with uds_delivers_frames [OF c] show ?thesis by metis
qed

section \<open>Giving up\<close>

text \<open>A step of connecting fails.\<close>

fun connect_failure :: "uds_event \<Rightarrow> bool" where
  "connect_failure (U_rest_resolved _ ec) = (ec \<noteq> None)"
| "connect_failure (U_rest_connected _ ec sni) = (ec \<noteq> None \<or> sni \<noteq> None)"
| "connect_failure (U_rest_handshaken _ ec) = (ec \<noteq> None)"
| "connect_failure (U_rest_written _ ec) = (ec \<noteq> None)"
| "connect_failure (U_rest_read _ ec _) = (ec \<noteq> None)"
| "connect_failure (U_ws_resolved _ ec) = (ec \<noteq> None)"
| "connect_failure (U_ws_connected _ ec _ sni) = (ec \<noteq> None \<or> sni \<noteq> None)"
| "connect_failure (U_ws_ssl_handshaken _ ec) = (ec \<noteq> None)"
| "connect_failure (U_ws_handshaken _ ec) = (ec \<noteq> None)"
| "connect_failure _ = False"

text \<open>What a stream does for a connection: requests, upgrades and delivered items.\<close>

fun conn_outs :: "uds_out list \<Rightarrow> uds_out list" where
  "conn_outs [] = []"
| "conn_outs (Rest_request r # os) = Rest_request r # conn_outs os"
| "conn_outs (Upgrade t # os) = Upgrade t # conn_outs os"
| "conn_outs (Items xs # os) = Items xs # conn_outs os"
| "conn_outs (_ # os) = conn_outs os"

lemma conn_outs_append [simp]: "conn_outs (xs @ ys) = conn_outs xs @ conn_outs ys"
  by (induction xs rule: conn_outs.induct) auto

text \<open>Only cancelled reconnect timers are left of the operations of connections.\<close>

definition gave_up :: "uds_conf \<Rightarrow> bool" where
  "gave_up c \<longleftrightarrow> (\<forall>p. p \<in> set (pend c) \<and> main_op p \<longrightarrow> is_error_timer p \<and> \<not> alive (obj c) p)"

lemma gave_upD: "gave_up c \<Longrightarrow> p \<in> set (pend c) \<Longrightarrow> main_op p \<Longrightarrow> is_error_timer p \<and> \<not> alive (obj c) p"
  by (simp add: gave_up_def)

lemma gave_up_happen:
  assumes "gave_up c"
    and "\<And>s' as. uds_handle env ev (obj c) = Inr (s', as) \<Longrightarrow>
      u_on_error_timer s' = u_on_error_timer (obj c) \<and> filter main_op (started as) = []"
  shows "gave_up (happen uds_op_of (uds_handle env) ev c)"
proof (cases "uds_handle env ev (obj c)")
  case (Inl e)
  with assms(1) show ?thesis
    by (auto simp: gave_up_def happen_def conf_of_def Let_def split: option.split
        dest!: set_remove1_subset [THEN subsetD])
next
  case (Inr r)
  then obtain s' as where r: "uds_handle env ev (obj c) = Inr (s', as)" by (cases r) auto
  note same = assms(2) [OF r]
  have "is_error_timer p \<and> \<not> alive s' p"
    if "p \<in> set (pend c) \<or> p \<in> set (started as)" "main_op p" for p
  proof -
    from that same have "p \<in> set (pend c)" by (auto simp: filter_empty_conv)
    from gave_upD [OF assms(1) this that(2)] same show ?thesis by (cases p) auto
  qed
  with r show ?thesis
    by (auto simp: gave_up_def happen_def conf_of_def Let_def split: option.split
        dest!: set_remove1_subset [THEN subsetD])
qed

lemma gave_up_events:
  assumes "gave_up c" "can_happen uds_op_of uds_enabled ev c"
  shows "(\<exists>p. uds_op_of ev = Some p \<and> \<not> main_op p) \<or> (\<exists>t msg. ev = U_error_timer t (Some msg))
    \<or> (\<exists>i e. ev = U_renewal i e) \<or> ev = U_stop \<or> (\<exists>g. ev = U_set_tg_group g)"
  using assms(2)
  by (cases ev) (auto simp: can_happen_def uds_enabled_def dest: gave_upD [OF assms(1)])

lemma gave_up_handle:
  assumes "gave_up c" "can_happen uds_op_of uds_enabled ev c"
    and "uds_handle env ev (obj c) = Inr (s', as)"
  shows "u_on_error_timer s' = u_on_error_timer (obj c) \<and> filter main_op (started as) = []
    \<and> conn_outs (emitted as) = []"
  using gave_up_events [OF assms(1,2)] assms(3)
  by (cases ev) (auto simp: uds_defs Let_def split: option.splits if_splits)

lemma gave_up_step:
  assumes "gave_up c" "can_happen uds_op_of uds_enabled ev c"
  shows "gave_up (happen uds_op_of (uds_handle env) ev c)
    \<and> conn_outs (outs (happen uds_op_of (uds_handle env) ev c)) = conn_outs (outs c)"
proof
  show "gave_up (happen uds_op_of (uds_handle env) ev c)"
    by (rule gave_up_happen [OF assms(1)]) (use gave_up_handle [OF assms] in blast)
  show "conn_outs (outs (happen uds_op_of (uds_handle env) ev c)) = conn_outs (outs c)"
    using gave_up_handle [OF assms, of env]
    by (cases "uds_handle env ev (obj c)") (auto simp: happen_def conf_of_def Let_def split: option.splits)
qed

lemma gave_up_run:
  assumes "uds_exec env evs c = Some c'" "gave_up c"
  shows "gave_up c' \<and> conn_outs (outs c') = conn_outs (outs c)"
  using assms(1)
proof (rule run_events_keeps)
  show "gave_up c \<and> conn_outs (outs c) = conn_outs (outs c)" using assms(2) by simp
next
  fix d ev
  assume "gave_up d \<and> conn_outs (outs d) = conn_outs (outs c)" "can_happen uds_op_of uds_enabled ev d"
  with gave_up_step [of d ev env]
  show "gave_up (happen uds_op_of (uds_handle env) ev d)
    \<and> conn_outs (outs (happen uds_op_of (uds_handle env) ev d)) = conn_outs (outs c)" by simp
qed

lemma failure_gives_up:
  assumes ok: "uds_ok (obj c) (pend c)" and ev: "can_happen uds_op_of uds_enabled ev c" "connect_failure ev"
  shows "gave_up (happen uds_op_of (uds_handle env) ev c)
    \<and> conn_outs (outs (happen uds_op_of (uds_handle env) ev c)) = conn_outs (outs c)"
proof -
  from ev obtain p where p: "uds_op_of ev = Some p" "p \<in> set (pend c)" "main_op p"
      "\<not> is_error_timer p" "\<not> is_ws_read p"
    by (cases ev) (auto simp: can_happen_def)
  have "alive (obj c) p"
    using uds_okD(4) [OF ok p(2,3)] p(4,5) by (auto simp: dead_ok_def)
  note single = uds_ok_live_single [OF ok p(2,3) this]
  have rest: "is_error_timer q \<and> \<not> alive (obj c) q"
    if q: "q \<in> set (remove1 p (pend c))" "main_op q" for q
  proof -
    from q(1) have mem: "q \<in> set (pend c)" using set_remove1_subset by fast
    have "\<not> alive (obj c) q"
    proof
      assume "alive (obj c) q"
      with q have "q \<in> set (filter (live (obj c)) (remove1 p (pend c)))" by simp
      then show False by (simp add: filter_remove1 single)
    qed
    with uds_okD(4) [OF ok mem q(2)] p(4) show ?thesis by (auto simp: dead_ok_def single)
  qed
  have same: "uds_handle env ev (obj c) = Inr (s', as) \<Longrightarrow> s' = obj c \<and> started as = [] \<and> conn_outs (emitted as) = []"
    for s' as
    using ev(2) by (cases ev) (auto simp: uds_defs split: option.splits if_splits)
  show ?thesis
  proof (cases "uds_handle env ev (obj c)")
    case (Inl e)
    with p rest show ?thesis by (auto simp: gave_up_def happen_def conf_of_def Let_def)
  next
    case (Inr r)
    then obtain s' as where r: "uds_handle env ev (obj c) = Inr (s', as)" by (cases r) auto
    with p rest same [OF r] show ?thesis by (auto simp: gave_up_def happen_def conf_of_def Let_def)
  qed
qed

text \<open>
  C37. A failure while connecting is final: after any failed step of obtaining the key or opening
  the WebSocket (only logged by the code), whatever happens later, the stream sends no further
  request, upgrade or item, and holds no connection.
\<close>

theorem uds_failure_is_final:
  assumes "uds_exec env evs (uds_launch host) = Some c"
    and "connect_failure ev" "uds_exec env (ev # evs') c = Some c'"
  shows "conn_outs (outs c') = conn_outs (outs c) \<and> filter (live (obj c')) (pend c') = []"
proof -
  from assms(3) have ev: "can_happen uds_op_of uds_enabled ev c"
    and run: "uds_exec env evs' (happen uds_op_of (uds_handle env) ev c) = Some c'"
    by (simp_all split: if_splits)
  from ev have "fault c = None" by (simp add: can_happen_def)
  from failure_gives_up [OF uds_reached_ok [OF assms(1) this] ev assms(2), of env]
    gave_up_run [OF run] have "conn_outs (outs c') = conn_outs (outs c)" "gave_up c'" by simp_all
  then show ?thesis by (auto simp: gave_up_def filter_empty_conv)
qed

theorem uds_failure_is_final_witness:
  "\<exists>(c :: uds_conf) (c' :: uds_conf). conn_outs (outs c') = conn_outs (outs c) \<and> pend c' = []"
proof -
  obtain c c' where c: "uds_exec key_env (take 3 rest_run) (uds_launch watched_host) = Some c"
    "uds_exec key_env [U_rest_written 1 (Some ''timeout''), U_stop, U_ws_closed 1 ''not open''] c = Some c'"
    "pend c' = []"
    by (simp add: compute_run)
  from uds_failure_is_final [OF c(1) _ c(2)]
  have "conn_outs (outs c') = conn_outs (outs c)" by simp
  with c(3) show ?thesis by (intro exI [of _ c] exI [of _ c'] conjI)
qed

section \<open>Stopping\<close>

fun is_resolve :: "uds_op \<Rightarrow> bool" where
  "is_resolve (Rest_resolve _) = True"
| "is_resolve (Ws_resolve _) = True"
| "is_resolve _ = False"

lemma stopped_handle:
  "u_stopped s \<Longrightarrow> uds_handle env ev s = Inr (s', as) \<Longrightarrow>
   u_stopped s' \<and> filter is_resolve (started as) = []"
  by (cases ev) (auto simp: uds_defs async_defs Let_def split: option.splits sum.splits if_splits)

lemma filter_remove1_subset: "set (filter P (remove1 p ps)) \<subseteq> set (filter P ps)"
  using set_remove1_subset by fastforce

lemma stopped_step:
  assumes "u_stopped (obj c)"
  shows "u_stopped (obj (happen uds_op_of (uds_handle env) ev c))
    \<and> set (filter is_resolve (pend (happen uds_op_of (uds_handle env) ev c)))
      \<subseteq> set (filter is_resolve (pend c))"
proof (cases "uds_handle env ev (obj c)")
  case (Inl e)
  with assms show ?thesis using filter_remove1_subset [of is_resolve _ "pend c"]
    by (auto simp: happen_def conf_of_def Let_def split: option.split)
next
  case (Inr r)
  then obtain s' as where r: "uds_handle env ev (obj c) = Inr (s', as)" by (cases r) auto
  with stopped_handle [OF assms r] show ?thesis using filter_remove1_subset [of is_resolve _ "pend c"]
    by (auto simp: happen_def conf_of_def Let_def filter_empty_conv split: option.split)
qed

text \<open>
  A stopped stream starts no new connection: after \<open>stop()\<close> no name is resolved any more, so
  the attempt in progress is the last.
\<close>

theorem uds_stopped_starts_nothing:
  assumes "uds_exec env evs c = Some c'" "u_stopped (obj c)"
  shows "u_stopped (obj c') \<and> set (filter is_resolve (pend c')) \<subseteq> set (filter is_resolve (pend c))"
  using assms(1)
  by (rule run_events_keeps) (use assms(2) stopped_step in \<open>blast+\<close>)

theorem uds_stopped_starts_nothing_witness:
  "\<exists>c' :: uds_conf. u_stopped (obj c') \<and> filter is_resolve (pend c') = []"
proof -
  obtain c c' where c: "uds_exec key_env (take 4 rest_run @ [U_stop]) (uds_launch watched_host) = Some c"
    "u_stopped (obj c)" "filter is_resolve (pend c) = []"
    "uds_exec key_env [U_rest_read 1 None ''key''] c = Some c'"
    by (simp add: compute_run)
  from uds_stopped_starts_nothing [OF c(4,2)] c(3) show ?thesis by auto
qed

text \<open>
  Stopping a stream that is opening its WebSocket does not stop it: the close is started on a
  stream that is not open, fails and is logged, the handshake goes on, and the stream reads and
  delivers items although it was stopped.
\<close>

theorem uds_stop_while_connecting:
  "\<exists>c. uds_exec key_env
      (rest_run @ [U_ws_resolved 3 None, U_stop, U_ws_closed 2 ''operation canceled'',
       U_ws_connected 2 None 9443 None, U_ws_ssl_handshaken 2 None, U_ws_handshaken 2 None,
       U_ws_read 2 None ''balance'' None]) (uds_launch watched_host) = Some c
     \<and> u_stopped (obj c) \<and> length (items_of (outs c)) = 1 \<and> Ws_read 2 \<in> set (pend c)"
  by (simp add: compute_run frame_defs)

text \<open>
  Removing an account whose TLS handshake had failed ends the program: the object keeps its
  stream while nothing is in flight, so that only the launcher holds it, and the destructor's
  \<open>close\<close> throws on a stream that was never opened.
\<close>

theorem uds_removal_after_failed_handshake:
  "\<exists>c. uds_exec key_env (rest_run @ [U_ws_resolved 3 None, U_ws_connected 2 None 9443 None,
      U_ws_ssl_handshaken 2 (Some err), U_stop, U_ws_closed 2 aborted]) (uds_launch host) = Some c
     \<and> pend c = [] \<and> \<not> holds_itself (obj c) \<and> uds_destroy (Some msg) (obj c) = raise (System_error msg)"
  by (simp add: compute_run uds_destroy_def holds_itself_def)

text \<open>
  When the upgrade failed, the object is never destroyed: after its removal nothing is in flight any
  more, but the control callback of its stream holds the object, and the object holds the stream.
\<close>

theorem uds_failed_upgrade_leaks:
  "\<exists>c. uds_exec key_env (rest_run @ [U_ws_resolved 3 None, U_ws_connected 2 None 9443 None,
      U_ws_ssl_handshaken 2 None, U_ws_handshaken 2 (Some err), U_stop, U_ws_closed 2 aborted]) (uds_launch host) = Some c
     \<and> pend c = [] \<and> u_stopped (obj c) \<and> holds_itself (obj c)"
  by (simp add: compute_run holds_itself_def)

section \<open>Requests and keep-alives\<close>

text \<open>
  The requests of the first phase, and the keep-alives against the upgrade target of the current
  connection (\<open>cur\<close> is the target of the last upgrade).
\<close>

fun rest_requests :: "uds_out list \<Rightarrow> http_request list" where
  "rest_requests [] = []"
| "rest_requests (Rest_request r # os) = r # rest_requests os"
| "rest_requests (_ # os) = rest_requests os"

fun last_upgrade :: "string option \<Rightarrow> uds_out list \<Rightarrow> string option" where
  "last_upgrade cur [] = cur"
| "last_upgrade cur (Upgrade t # os) = last_upgrade (Some t) os"
| "last_upgrade cur (_ # os) = last_upgrade cur os"

fun keepalives_ok :: "string \<Rightarrow> string option \<Rightarrow> uds_out list \<Rightarrow> bool" where
  "keepalives_ok a cur [] \<longleftrightarrow> True"
| "keepalives_ok a cur (Upgrade t # os) \<longleftrightarrow> keepalives_ok a (Some t) os"
| "keepalives_ok a cur (Run_keepalive k a' # os) \<longleftrightarrow>
     cur = Some (''/ws/'' @ k) \<and> a' = a \<and> keepalives_ok a cur os"
| "keepalives_ok a cur (_ # os) \<longleftrightarrow> keepalives_ok a cur os"

lemma rest_requests_append [simp]: "rest_requests (xs @ ys) = rest_requests xs @ rest_requests ys"
  by (induction xs rule: rest_requests.induct) auto

lemma last_upgrade_append [simp]: "last_upgrade cur (xs @ ys) = last_upgrade (last_upgrade cur xs) ys"
  by (induction cur xs rule: last_upgrade.induct) auto

lemma keepalives_ok_append [simp]:
  "keepalives_ok a cur (xs @ ys) \<longleftrightarrow> keepalives_ok a cur xs \<and> keepalives_ok a (last_upgrade cur xs) ys"
  by (induction a cur xs rule: keepalives_ok.induct) auto

fun on_websocket :: "uds_op \<Rightarrow> bool" where
  "on_websocket (Ws_handshake _) = True"
| "on_websocket (Ws_read _) = True"
| "on_websocket _ = False"

text \<open>While the WebSocket is up, the target of the last upgrade is that of the current key.\<close>

definition upgraded :: "uds \<Rightarrow> uds_out list \<Rightarrow> bool" where
  "upgraded s os \<longleftrightarrow> (\<exists>k. u_listen_key s = Some k \<and> last_upgrade None os = Some (''/ws/'' @ k))"

definition key_ok :: "uds \<Rightarrow> uds_op list \<Rightarrow> uds_out list \<Rightarrow> bool" where
  "key_ok s ps os \<longleftrightarrow> (\<forall>p. p \<in> set ps \<and> on_websocket p \<and> alive s p \<longrightarrow> upgraded s os)"

lemma handle_evolves:
  "uds_handle env ev s = Inr (s', as) \<Longrightarrow> evolves s s'"
  by (cases ev) (auto simp: uds_defs async_defs Let_def evolves_defs
      split: option.splits sum.splits if_splits)

text \<open>The live operation of an event leaves no live operation behind.\<close>

lemma live_event_gone:
  assumes "uds_ok s ps" "p \<in> set ps" "live s p" "q \<in> set (remove1 p ps)" "evolves s s'"
  shows "\<not> live s' q"
proof
  assume q: "live s' q"
  from assms(4) have mem: "q \<in> set ps" using set_remove1_subset by fast
  from evolves_alive [OF assms(5) uds_okD(2) [OF assms(1) mem]] q assms(4)
  have "q \<in> set (filter (live s) (remove1 p ps))" by simp
  then show False using uds_ok_live_single(1) [OF assms(1,2)] assms(3) by (simp add: filter_remove1)
qed

lemma started_on_websocket:
  assumes "uds_handle env ev s = Inr (s', as)" "p \<in> set (started as)" "on_websocket p"
    and "\<forall>q. uds_op_of ev = Some q \<and> on_websocket q \<longrightarrow> upgraded s os"
  shows "upgraded s' (os @ emitted as)"
  using assms by (cases ev)
    (auto simp: uds_defs async_defs Let_def upgraded_def split: option.splits sum.splits if_splits)

text \<open>Any other event keeps the key and the last upgrade, or severs the connection.\<close>

lemma other_event:
  assumes "uds_handle env ev s = Inr (s', as)" "event_possible ev s ps"
    and "\<forall>p. uds_op_of ev = Some p \<longrightarrow> \<not> live s p"
  shows "u_stream s' = None \<or>
    u_listen_key s' = u_listen_key s \<and> last_upgrade cur (emitted as) = cur
      \<and> filter on_websocket (started as) = []"
  using assms by (cases ev) (auto simp: uds_defs async_defs Let_def event_possible_def
      split: option.splits sum.splits if_splits)

lemma key_step:
  assumes ok: "uds_ok s ps" and ev: "event_possible ev s ps" and key: "key_ok s ps os"
    and h: "uds_handle env ev s = Inr (s', as)"
  shows "key_ok s' ((case uds_op_of ev of None \<Rightarrow> ps | Some p \<Rightarrow> remove1 p ps) @ started as)
    (os @ emitted as)"
proof (cases "\<exists>p. uds_op_of ev = Some p \<and> live s p")
  case True
  then obtain p where p: "uds_op_of ev = Some p" "live s p" by blast
  with ev have mem: "p \<in> set ps" by (auto simp: event_possible_def)
  have main: "main_op q" if "on_websocket q" for q using that by (cases q) auto
  from p mem key have "\<forall>q. uds_op_of ev = Some q \<and> on_websocket q \<longrightarrow> upgraded s os"
    by (auto simp: key_ok_def)
  note new = started_on_websocket [OF h _ _ this]
  from live_event_gone [OF ok mem p(2) _ handle_evolves [OF h]] main new p(1) show ?thesis
    by (auto simp: key_ok_def)
next
  case False
  then have dead: "\<forall>p. uds_op_of ev = Some p \<longrightarrow> \<not> live s p" by blast
  have kept: "upgraded s os" if "q \<in> set ps" "on_websocket q" "alive s' q" for q
    using that key evolves_alive [OF handle_evolves [OF h] uds_okD(2) [OF ok that(1)]]
    by (auto simp: key_ok_def)
  from other_event [OF h ev dead, of "last_upgrade None os"] show ?thesis
  proof
    assume "u_stream s' = None"
    then have "\<not> (on_websocket q \<and> alive s' q)" for q by (cases q) auto
    then show ?thesis by (auto simp: key_ok_def)
  next
    assume "u_listen_key s' = u_listen_key s \<and> last_upgrade (last_upgrade None os) (emitted as)
      = last_upgrade None os \<and> filter on_websocket (started as) = []"
    with kept show ?thesis
      by (auto simp: key_ok_def upgraded_def filter_empty_conv split: option.splits
          dest!: set_remove1_subset [THEN subsetD])
  qed
qed

lemma handle_api_key:
  "uds_handle env ev s = Inr (s', as) \<Longrightarrow> api_key (u_host s') = api_key (u_host s)
    \<and> set (rest_requests (emitted as)) \<subseteq> {rest_request (api_key (u_host s))}"
  by (cases ev) (auto simp: uds_defs async_defs Let_def split: option.splits sum.splits if_splits)

text \<open>The timer only exists while the WebSocket is read.\<close>

lemma timer_upgraded:
  assumes "uds_ok s ps" "key_ok s ps os" "u_listen_key_timer s \<noteq> None"
  shows "upgraded s os"
proof -
  from uds_okD(3) [OF assms(1)] assms(3) obtain p where p: "filter (live s) ps = [p]" "stage_ok s p"
    by (auto simp: lives_ok_def split: list.splits)
  then have "p \<in> set (filter (live s) ps)" by simp
  moreover from p(2) assms(3) have "on_websocket p" by (cases p) auto
  ultimately show ?thesis using assms(2) by (auto simp: key_ok_def)
qed

lemma handle_keepalive:
  assumes "uds_ok s ps" "key_ok s ps os" "event_possible ev s ps" "uds_handle env ev s = Inr (s', as)"
  shows "keepalives_ok (api_key (u_host s)) (last_upgrade None os) (emitted as)"
  using assms(3,4) timer_upgraded [OF assms(1,2)]
  by (cases ev) (auto simp: uds_defs async_defs Let_def event_possible_def upgraded_def
      split: option.splits sum.splits if_splits)

definition key_inv :: "'f uds_env \<Rightarrow> uds_conf \<Rightarrow> uds_event list \<Rightarrow> uds_conf \<Rightarrow> bool" where
  "key_inv env c0 evs c \<longleftrightarrow> uds_inv env c0 evs c
     \<and> (fault c = None \<longrightarrow> key_ok (obj c) (pend c) (outs c))
     \<and> api_key (u_host (obj c)) = api_key (u_host (obj c0))
     \<and> set (rest_requests (outs c)) \<subseteq> {rest_request (api_key (u_host (obj c)))}
     \<and> keepalives_ok (api_key (u_host (obj c))) None (outs c)"

lemma key_inv_start: "\<exists>host. c = uds_launch host \<Longrightarrow> key_inv env c [] c"
  using uds_inv_start [of c env]
  by (auto simp: key_inv_def uds_launch_def uds_defs new_uds_def async_defs key_ok_def)

lemma key_inv_step:
  assumes inv: "key_inv env c0 evs c" and ev: "can_happen uds_op_of uds_enabled ev c"
  shows "key_inv env c0 (evs @ [ev]) (happen uds_op_of (uds_handle env) ev c)"
proof -
  from inv have "uds_inv env c0 evs c" by (simp add: key_inv_def)
  note nxt = uds_inv_step [OF this ev]
  from possible [OF ev] inv have ok: "uds_ok (obj c) (pend c)" "event_possible ev (obj c) (pend c)"
    and key: "key_ok (obj c) (pend c) (outs c)" by (auto simp: key_inv_def uds_inv_def)
  show ?thesis
  proof (cases "uds_handle env ev (obj c)")
    case (Inl e)
    with nxt inv show ?thesis
      by (auto simp: key_inv_def happen_def conf_of_def Let_def split: option.split)
  next
    case (Inr r)
    then obtain s' as where r: "uds_handle env ev (obj c) = Inr (s', as)" by (cases r) auto
    from nxt inv r handle_api_key [OF r] key_step [OF ok key r] handle_keepalive [OF ok(1) key ok(2) r]
    show ?thesis
      by (cases "uds_op_of ev") (auto simp: key_inv_def happen_def conf_of_def Let_def)
  qed
qed

interpretation uk: async_client uds_op_of uds_enabled "uds_handle env"
  "\<lambda>c. \<exists>host. c = uds_launch host" "key_inv env" for env :: "'f uds_env"
  by unfold_locales (erule key_inv_start, erule key_inv_step)

lemma key_reached:
  "uds_exec env evs (uds_launch host) = Some c \<Longrightarrow> key_inv env (uds_launch host) evs c"
  by (rule uk.inv_run, assumption, intro exI, rule refl)

lemma launch_host: "u_host (obj (uds_launch host)) = host"
  by (simp add: uds_launch_def uds_defs new_uds_def async_defs)



end
