(* ===== verification/User_Stream_Renewals.thy ===== *)
theory User_Stream_Renewals
  imports User_Stream_Properties
begin

text \<open>
  The user data stream together with the keep-alive objects it owns: which objects exist, what they
  send, and that the handlers of a destroyed one may still run.
\<close>

section \<open>The keep-alive objects that a stream created\<close>

fun keepalives_started :: "uds_out list \<Rightarrow> (string \<times> string) list" where
  "keepalives_started [] = []"
| "keepalives_started (Run_keepalive k a # os) = (k, a) # keepalives_started os"
| "keepalives_started (_ # os) = keepalives_started os"

lemma keepalives_started_append [simp]:
  "keepalives_started (xs @ ys) = keepalives_started xs @ keepalives_started ys"
  by (induction xs rule: keepalives_started.induct) auto

definition renewal_keys :: "lkk_conf \<Rightarrow> string \<times> string" where
  "renewal_keys r = (k_listen_key (obj r), k_api_key (obj r))"

lemma renewal_keys_simps [simp]:
  "renewal_keys (destroy_renewal r) = renewal_keys r" "renewal_keys (lkk_launch l k) = (l, k)"
  by (simp_all add: renewal_keys_def lkk_launch_keys)

lemma renewal_keys_step [simp]: "renewal_keys (happen lkk_op_of lkk_handle ev r) = renewal_keys r"
  by (cases ev) (auto simp: renewal_keys_def lkk_defs async_defs Let_def split: option.split)

text \<open>Each start of a keep-alive creates one object, with its keys; no other step changes the keys.\<close>

lemma handle_renewal_keys:
  assumes "uds_handle env ev s = Inr (s', as)" "event_possible ev s ps"
  shows "map renewal_keys (u_renewals s') = map renewal_keys (u_renewals s) @ keepalives_started (emitted as)"
proof (cases "renews ev")
  case False
  then have "keepalives_started (emitted as) = []"
    using assms(1) by (cases ev rule: renews.cases)
      (auto simp: uds_defs async_defs Let_def split: option.splits sum.splits if_splits)
  with other_handlers [OF False assms(1)] show ?thesis by simp
next
  case True
  have severed: "map renewal_keys (u_renewals t) = map renewal_keys (u_renewals s) \<and> keepalives_started (emitted bs) = []"
    if "on_ws_connection_severed cl s = Inr (t, bs)" for cl t bs
    using that by (auto simp: on_ws_connection_severed_def reset_keepalive_def o_def split: option.splits)
  show ?thesis
  proof (cases ev)
    case (U_renewal i e)
    let ?r = "happen lkk_op_of lkk_handle e (u_renewals s ! i)"
    from U_renewal assms(2) have "map renewal_keys ((u_renewals s)[i := ?r])
        = (map renewal_keys (u_renewals s))[i := map renewal_keys (u_renewals s) ! i]"
      by (simp add: map_update event_possible_def)
    with U_renewal assms show ?thesis by (auto simp: uds_on_renewal_def Let_def split: option.splits)
  next
    case (U_key_timer t ec)
    with assms show ?thesis by (auto simp: uds_on_key_timer_def o_def split: option.splits if_splits)
  next
    case (U_ws_read i ec data cl)
    with True assms severed show ?thesis
      by (cases ec) (auto simp: uds_on_ws_read_def emit_then_def res_simps)
  next
    case (U_control_close i cl)
    with assms severed show ?thesis by (auto simp: uds_on_control_close_def split: if_splits)
  qed (use True in simp_all)
qed

definition renewals_inv :: "'f uds_env \<Rightarrow> uds_conf \<Rightarrow> uds_event list \<Rightarrow> uds_conf \<Rightarrow> bool" where
  "renewals_inv env c0 evs c \<longleftrightarrow> key_inv env c0 evs c
     \<and> map renewal_keys (u_renewals (obj c)) = keepalives_started (outs c)"

lemma renewals_inv_start: "\<exists>host. c = uds_launch host \<Longrightarrow> renewals_inv env c [] c"
  using key_inv_start [of c env]
  by (auto simp: renewals_inv_def uds_launch_def uds_defs new_uds_def async_defs)

lemma renewals_inv_step:
  assumes inv: "renewals_inv env c0 evs c" and ev: "can_happen uds_op_of uds_enabled ev c"
  shows "renewals_inv env c0 (evs @ [ev]) (happen uds_op_of (uds_handle env) ev c)"
proof -
  from possible [OF ev] have pos: "event_possible ev (obj c) (pend c)" by blast
  from inv have "key_inv env c0 evs c" by (simp add: renewals_inv_def)
  from key_inv_step [OF this ev] inv handle_renewal_keys [OF _ pos, of env] show ?thesis
    by (cases "uds_handle env ev (obj c)")
      (auto simp: renewals_inv_def happen_def conf_of_def Let_def split: option.splits)
qed

interpretation ur: async_client uds_op_of uds_enabled "uds_handle env"
  "\<lambda>c. \<exists>host. c = uds_launch host" "renewals_inv env" for env :: "'f uds_env"
  by unfold_locales (erule renewals_inv_start, erule renewals_inv_step)

lemma renewals_reached:
  "uds_exec env evs (uds_launch host) = Some c \<Longrightarrow> renewals_inv env (uds_launch host) evs c"
  by (rule ur.inv_run, assumption, intro exI, rule refl)

lemma sound_requests:
  assumes "renewal_sound r"
  shows "sent_requests (outs r) \<in> {[], [renewal_request (fst (renewal_keys r)) (snd (renewal_keys r))]}"
proof -
  from assms obtain c0 evs where inv: "lkk_inv c0 evs r" "fault r = None" by (auto simp: renewal_sound_def)
  then have "length (sent_requests (outs r)) \<le> 1" "set (sent_requests (outs r))
      \<subseteq> {renewal_request (fst (renewal_keys r)) (snd (renewal_keys r))}"
    by (auto simp: lkk_inv_def renewal_keys_def dest: lkk_stage_length)
  then show ?thesis by (cases "sent_requests (outs r)") auto
qed

lemma alive_count:
  "renewals_ok s \<Longrightarrow> length (filter (\<lambda>r. k_alive (obj r)) (u_renewals s)) \<le> 1"
proof -
  assume ok: "renewals_ok s"
  have "length (filter (\<lambda>r. k_alive (obj r)) (u_renewals s)) = length (filter (\<lambda>b. b) (map (\<lambda>r. k_alive (obj r)) (u_renewals s)))"
    by (simp add: filter_map o_def)
  with ok show ?thesis by (simp add: renewals_ok_def split: option.splits)
qed

section \<open>Properties\<close>

text \<open>
  C36. Every expiry of the keep-alive timer creates one keep-alive object, of which at most one exists
  at a time; each sends nothing or exactly one request, the PUT for the listen key with which the
  current WebSocket connection was opened at that moment, with the API key of the account; through all
  reconnections, and whatever becomes of the requests.
\<close>

theorem uds_renewal_requests:
  assumes "uds_exec env evs (uds_launch host) = Some c"
  shows "map renewal_keys (u_renewals (obj c)) = keepalives_started (outs c)
    \<and> keepalives_ok (api_key host) None (outs c)
    \<and> (\<forall>r\<in>set (u_renewals (obj c)).
        sent_requests (outs r) \<in> {[], [renewal_request (fst (renewal_keys r)) (snd (renewal_keys r))]})
    \<and> length (filter (\<lambda>r. k_alive (obj r)) (u_renewals (obj c))) \<le> 1"
proof -
  from renewals_reached [OF assms] have inv: "key_inv env (uds_launch host) evs c"
    "map renewal_keys (u_renewals (obj c)) = keepalives_started (outs c)" by (simp_all add: renewals_inv_def)
  then have ok: "renewals_ok (obj c)" by (simp add: key_inv_def uds_inv_def)
  with inv alive_count [OF ok] sound_requests show ?thesis
    by (auto simp: key_inv_def launch_host renewals_ok_def)
qed

definition renewal_run :: "uds_event list" where
  "renewal_run = connect_run @ [U_key_timer 4 None, U_renewal 0 (K_resolved None),
     U_renewal 0 (K_connected None None), U_renewal 0 (K_handshaken None)]"

lemmas compute_renewal = compute_run lkk_defs renewal_run_def

theorem uds_renewal_requests_witness:
  "\<exists>c :: uds_conf. map renewal_keys (u_renewals (obj c)) = [(''k1'', ''key1'')]
     \<and> map (\<lambda>r. sent_requests (outs r)) (u_renewals (obj c)) = [[renewal_request ''k1'' ''key1'']]
     \<and> length (filter (\<lambda>r. k_alive (obj r)) (u_renewals (obj c))) \<le> 1"
proof -
  obtain c where c: "uds_exec key_env renewal_run (uds_launch watched_host) = Some c"
    "keepalives_started (outs c) = [(''k1'', ''key1'')]"
    "map (\<lambda>r. sent_requests (outs r)) (u_renewals (obj c)) = [[renewal_request ''k1'' ''key1'']]"
    by (simp add: compute_renewal)
  from uds_renewal_requests [OF c(1)] c(2,3) show ?thesis by (intro exI [of _ c]) auto
qed

text \<open>
  The owner's reset during a renewal is a use after free: the connection is severed while the renewal
  is connecting, and the handler of the connect, which had already succeeded, dereferences \<open>this\<close>.
\<close>

theorem uds_renewal_after_free:
  "\<exists>c. uds_exec key_env (connect_run @ [U_key_timer 4 None, U_renewal 0 (K_resolved None),
      U_ws_read 2 (Some ''eof'') [] None, U_renewal 0 (K_connected None sni)]) (uds_launch host) = Some c
     \<and> fault c = Some Undefined_behaviour"
  by (simp add: compute_renewal destroy_renewal_def)

end
