(* ===== verification/Tg_Sender.thy ===== *)
theory Tg_Sender
  imports Async Http
begin

text \<open>
  binance_orders/src/tg_message_sender.cpp: \<open>tg_message_sender_t\<close>, a queue of Telegram messages
  sent one after another over one HTTPS connection. Resolver, stream, request, response and buffer
  are optional objects of the class; the model keeps whether they exist (and the request). A completion event carries the error message of its \<open>error_code\<close>, \<open>None\<close> for success.
\<close>

record tg_payload_t =
  p_text :: string
  p_chat_id :: string

record tg_sender =
  s_stream :: bool
  s_resolver :: bool
  s_request :: "http_request option"
  s_response :: bool
  s_buffer :: bool
  s_payloads :: "tg_payload_t list"
  s_completed :: bool

datatype tg_op = Tg_resolve | Tg_connect | Tg_handshake | Tg_write | Tg_read

datatype tg_out = Error_cb string | Completion_cb string | Sent http_request

datatype tg_event =
    Tg_resolved "string option"
  | Tg_connected "string option" "string option"
  | Tg_handshaken "string option"
  | Tg_written "string option"
  | Tg_read_done "string option" string
  | Tg_add_payload tg_payload_t

type_synonym tg_handler = "(tg_sender, tg_op, tg_out) handler"
type_synonym tg_conf = "(tg_sender, tg_op, tg_out) conf"

section \<open>The operations\<close>

text \<open>
  \<open>resolver_{nullptr}\<close> does not leave the \<open>std::optional\<close> empty but constructs a resolver, over an empty
  executor. The model lets the construction succeed; the resolver is replaced before it is used.
\<close>

definition new_sender :: "tg_payload_t \<Rightarrow> tg_sender" where
  "new_sender payload = \<lparr>s_stream = False, s_resolver = True, s_request = None,
     s_response = False, s_buffer = False, s_payloads = [payload], s_completed = False\<rparr>"

definition completed_operation :: "tg_sender \<Rightarrow> bool" where
  "completed_operation s = s_completed s"

definition available_with_less_tasks :: "tg_sender \<Rightarrow> bool" where
  "available_with_less_tasks s \<longleftrightarrow> \<not> s_completed s \<and> length (s_payloads s) < 20"

definition add_payload :: "tg_payload_t \<Rightarrow> tg_handler" where
  "add_payload p s = ok (s\<lparr>s_payloads := s_payloads s @ [p]\<rparr>, [])"

definition tg_initiate_connection :: tg_handler where
  "tg_initiate_connection s = ok (s\<lparr>s_resolver := True\<rparr>, [Start Tg_resolve])"

definition tg_run :: tg_handler where
  "tg_run = tg_initiate_connection"

definition tg_start :: tg_handler where
  "tg_start = tg_run"

definition tg_reestablish_connection :: tg_handler where
  "tg_reestablish_connection s = tg_initiate_connection (s\<lparr>s_stream := False\<rparr>)"

definition tg_connect_to_server :: tg_handler where
  "tg_connect_to_server s = ok (s\<lparr>s_resolver := False, s_stream := True\<rparr>, [Start Tg_connect])"

text \<open>\<open>SSL_set_tlsext_host_name\<close> reports its failure in \<open>sni\<close>.\<close>

definition tg_perform_ssl_handshake :: "string option \<Rightarrow> tg_handler" where
  "tg_perform_ssl_handshake sni s =
     (if \<not> s_stream s then raise Undefined_behaviour
      else case sni of
        Some msg \<Rightarrow> ok (s, [Emit (Error_cb msg)])
      | None \<Rightarrow> ok (s, [Start Tg_handshake]))"

definition tg_target :: "string \<Rightarrow> tg_payload_t \<Rightarrow> string" where
  "tg_target token p = ''/bot'' @ token @ ''/sendMessage?chat_id='' @ p_chat_id p
     @ ''&text='' @ p_text p"

definition tg_host :: string where
  "tg_host = ''api.telegram.org''"

definition tg_request :: "string \<Rightarrow> tg_payload_t \<Rightarrow> http_request" where
  "tg_request token p = prepare_payload
     (set_field ''Content-Type'' ''application/x-www-form-urlencoded''
     (set_field ''Host'' tg_host
     (empty_request\<lparr>h_method := Verb_post, h_target := tg_target token p\<rparr>)))"

text \<open>\<open>payloads_.front()\<close> has no guard.\<close>

definition tg_prepare_payload :: "string \<Rightarrow> tg_sender \<Rightarrow> tg_sender res" where
  "tg_prepare_payload token s =
     (case s_request s of
        Some _ \<Rightarrow> ok s
      | None \<Rightarrow> (case s_payloads s of
          [] \<Rightarrow> raise Undefined_behaviour
        | p # ps \<Rightarrow> ok (s\<lparr>s_payloads := ps, s_request := Some (tg_request token p)\<rparr>)))"

definition tg_send_request :: "string \<Rightarrow> tg_handler" where
  "tg_send_request token s =
     rbind (tg_prepare_payload token s) (\<lambda>s.
       case s_request s of
         Some request \<Rightarrow> if s_stream s then ok (s, [Emit (Sent request), Start Tg_write])
                        else raise Undefined_behaviour
       | None \<Rightarrow> raise Undefined_behaviour)"

definition tg_receive_data :: tg_handler where
  "tg_receive_data s = (if s_stream s
     then ok (s\<lparr>s_response := True, s_buffer := True\<rparr>, [Start Tg_read])
     else raise Undefined_behaviour)"

definition tg_send_next_request :: "string \<Rightarrow> tg_handler" where
  "tg_send_next_request token s =
     (let s' = s\<lparr>s_completed := (s_payloads s = [])\<rparr> in
      if \<not> s_completed s' then tg_send_request token s' else ok (s', []))"

section \<open>The completion handlers\<close>

definition tg_fail :: "string \<Rightarrow> tg_handler" where
  "tg_fail msg s = ok (s\<lparr>s_completed := True\<rparr>, [Emit (Error_cb msg)])"

definition tg_on_resolved :: "string option \<Rightarrow> tg_handler" where
  "tg_on_resolved ec = (case ec of Some msg \<Rightarrow> tg_fail msg | None \<Rightarrow> tg_connect_to_server)"

definition tg_on_connected :: "string option \<Rightarrow> string option \<Rightarrow> tg_handler" where
  "tg_on_connected ec sni =
     (case ec of Some msg \<Rightarrow> tg_fail msg | None \<Rightarrow> tg_perform_ssl_handshake sni)"

definition tg_on_handshaken :: "string \<Rightarrow> string option \<Rightarrow> tg_handler" where
  "tg_on_handshaken token ec = (case ec of Some msg \<Rightarrow> tg_fail msg | None \<Rightarrow> tg_send_request token)"

definition tg_on_written :: "string option \<Rightarrow> tg_handler" where
  "tg_on_written ec s = (let s' = s\<lparr>s_request := None\<rparr> in
     case ec of
       Some msg \<Rightarrow> emit_then (Error_cb msg) tg_reestablish_connection s'
     | None \<Rightarrow> tg_receive_data s')"

definition tg_on_read :: "string \<Rightarrow> string option \<Rightarrow> string \<Rightarrow> tg_handler" where
  "tg_on_read token ec body s =
     (case ec of
       Some msg \<Rightarrow> emit_then (Error_cb msg) tg_reestablish_connection s
     | None \<Rightarrow>
         (if s_response s
          then emit_then (Completion_cb body) (tg_send_next_request token)
            (s\<lparr>s_request := None, s_response := False\<rparr>)
          else raise Undefined_behaviour))"

fun tg_handle :: "string \<Rightarrow> tg_event \<Rightarrow> tg_handler" where
  "tg_handle token (Tg_resolved ec) = tg_on_resolved ec"
| "tg_handle token (Tg_connected ec sni) = tg_on_connected ec sni"
| "tg_handle token (Tg_handshaken ec) = tg_on_handshaken token ec"
| "tg_handle token (Tg_written ec) = tg_on_written ec"
| "tg_handle token (Tg_read_done ec body) = tg_on_read token ec body"
| "tg_handle token (Tg_add_payload p) = add_payload p"

fun tg_op_of :: "tg_event \<Rightarrow> tg_op option" where
  "tg_op_of (Tg_resolved _) = Some Tg_resolve"
| "tg_op_of (Tg_connected _ _) = Some Tg_connect"
| "tg_op_of (Tg_handshaken _) = Some Tg_handshake"
| "tg_op_of (Tg_written _) = Some Tg_write"
| "tg_op_of (Tg_read_done _ _) = Some Tg_read"
| "tg_op_of (Tg_add_payload _) = None"

fun_cases tg_call: "tg_op_of ev = None"

text \<open>Construction followed by \<open>start()\<close>.\<close>

definition tg_launch :: "tg_payload_t \<Rightarrow> tg_conf" where
  "tg_launch payload = conf_of (tg_start (new_sender payload)) (conf_init (new_sender payload))"

abbreviation tg_exec :: "string \<Rightarrow> tg_event list \<Rightarrow> tg_conf \<Rightarrow> tg_conf option" where
  "tg_exec token \<equiv> run_events tg_op_of (\<lambda>_ _. True) (tg_handle token)"

lemmas tg_defs = tg_on_resolved_def tg_on_connected_def tg_on_handshaken_def tg_on_written_def
  tg_on_read_def tg_fail_def tg_send_next_request_def tg_receive_data_def tg_send_request_def
  tg_prepare_payload_def tg_perform_ssl_handshake_def tg_connect_to_server_def
  tg_reestablish_connection_def tg_initiate_connection_def tg_run_def tg_start_def add_payload_def
  new_sender_def tg_launch_def

section \<open>The invariant\<close>

text \<open>The requests handed to \<open>async_write\<close>, in order.\<close>

fun sent :: "tg_out list \<Rightarrow> http_request list" where
  "sent [] = []"
| "sent (Sent t # os) = t # sent os"
| "sent (_ # os) = sent os"

fun added :: "tg_event list \<Rightarrow> tg_payload_t list" where
  "added [] = []"
| "added (Tg_add_payload p # evs) = p # added evs"
| "added (_ # evs) = added evs"

lemma sent_append [simp]: "sent (os @ os') = sent os @ sent os'"
  by (induction os rule: sent.induct) auto

lemma added_append [simp]: "added (evs @ evs') = added evs @ added evs'"
  by (induction evs rule: added.induct) auto

text \<open>Events after which the connection is made anew, and the one that leaves no operation.\<close>

fun transport_error :: "tg_event \<Rightarrow> bool" where
  "transport_error (Tg_written ec) = (ec \<noteq> None)"
| "transport_error (Tg_read_done ec _) = (ec \<noteq> None)"
| "transport_error _ = False"

fun sni_error :: "tg_event \<Rightarrow> bool" where
  "sni_error (Tg_connected ec sni) = (ec = None \<and> sni \<noteq> None)"
| "sni_error _ = False"

text \<open>
  At most one operation is in flight, and it determines which objects exist. \<open>failed\<close>: there has
  been a transport error; \<open>stranded\<close>: there has been an SNI error.
\<close>

fun tg_pending_ok :: "bool \<Rightarrow> bool \<Rightarrow> tg_sender \<Rightarrow> tg_op list \<Rightarrow> bool" where
  "tg_pending_ok failed stranded s [] = ((s_completed s \<or> stranded) \<and> s_request s = None)"
| "tg_pending_ok failed stranded s [Tg_resolve] =
     (s_request s = None \<and> \<not> s_completed s \<and> (s_payloads s \<noteq> [] \<or> failed))"
| "tg_pending_ok failed stranded s [Tg_connect] =
     (s_stream s \<and> s_request s = None \<and> \<not> s_completed s \<and> (s_payloads s \<noteq> [] \<or> failed))"
| "tg_pending_ok failed stranded s [Tg_handshake] =
     (s_stream s \<and> s_request s = None \<and> \<not> s_completed s \<and> (s_payloads s \<noteq> [] \<or> failed))"
| "tg_pending_ok failed stranded s [Tg_write] = (s_stream s \<and> s_request s \<noteq> None \<and> \<not> s_completed s)"
| "tg_pending_ok failed stranded s [Tg_read] =
     (s_stream s \<and> s_request s = None \<and> s_response s \<and> \<not> s_completed s)"
| "tg_pending_ok failed stranded s _ = False"

definition tg_fifo :: "string \<Rightarrow> tg_conf \<Rightarrow> tg_event list \<Rightarrow> tg_conf \<Rightarrow> bool" where
  "tg_fifo token c0 evs c \<longleftrightarrow>
     sent (outs c) @ map (tg_request token) (s_payloads (obj c))
       = map (tg_request token) (s_payloads (obj c0) @ added evs)"

definition tg_control :: "tg_event list \<Rightarrow> tg_conf \<Rightarrow> bool" where
  "tg_control evs c \<longleftrightarrow>
     (case fault c of
        None \<Rightarrow> tg_pending_ok (list_ex transport_error evs) (list_ex sni_error evs) (obj c) (pend c)
      | Some e \<Rightarrow> e = Undefined_behaviour \<and> list_ex transport_error evs \<and> s_payloads (obj c) = [])"

definition tg_inv :: "string \<Rightarrow> tg_conf \<Rightarrow> tg_event list \<Rightarrow> tg_conf \<Rightarrow> bool" where
  "tg_inv token c0 evs c \<longleftrightarrow> tg_fifo token c0 evs c \<and> tg_control evs c"

text \<open>Each handler moves messages from the queue to the wire in order.\<close>

lemma tg_handle_fifo:
  "(tg_op_of ev = Some Tg_handshake \<longrightarrow> s_request s = None) \<Longrightarrow> tg_handle token ev s = Inr (s', as) \<Longrightarrow>
   sent (emitted as) @ map (tg_request token) (s_payloads s')
     = map (tg_request token) (s_payloads s @ added [ev])"
  by (cases ev) (auto simp: tg_defs async_defs Let_def res_simps split: option.splits list.splits if_splits)

lemma tg_handle_fault_keeps: "fault (conf_of (Inl e) c) = Some e" "obj (conf_of (Inl e) c) = obj c"
  by (simp_all add: conf_of_def)

lemma tg_pending_single: "tg_pending_ok f n s ps \<Longrightarrow> p \<in> set ps \<Longrightarrow> ps = [p]"
  by (cases "(f, n, s, ps)" rule: tg_pending_ok.cases) auto

lemma tg_fifo_step:
  assumes "tg_inv token c0 evs c" "can_happen tg_op_of (\<lambda>_ _. True) ev c"
  shows "tg_fifo token c0 (evs @ [ev]) (happen tg_op_of (tg_handle token) ev c)"
proof (cases "tg_handle token ev (obj c)")
  case (Inl e)
  then have "added [ev] = []" by (cases ev) (simp_all add: add_payload_def)
  with Inl assms show ?thesis
    by (auto simp: tg_inv_def tg_fifo_def happen_def conf_of_def Let_def split: option.splits)
next
  case (Inr r)
  then obtain s' as where r: "tg_handle token ev (obj c) = Inr (s', as)" by (cases r) auto
  have "tg_op_of ev = Some Tg_handshake \<longrightarrow> s_request (obj c) = None"
    using assms tg_pending_single by (fastforce simp: tg_inv_def tg_control_def can_happen_def)
  from tg_handle_fifo [OF this r] assms(1) r show ?thesis
    by (auto simp: tg_inv_def tg_fifo_def happen_def conf_of_def Let_def split: option.splits)
qed

lemma tg_control_step:
  assumes "tg_control evs c" "can_happen tg_op_of (\<lambda>_ _. True) ev c"
  shows "tg_control (evs @ [ev]) (happen tg_op_of (tg_handle token) ev c)"
proof -
  from assms have ok: "fault c = None"
    "tg_pending_ok (list_ex transport_error evs) (list_ex sni_error evs) (obj c) (pend c)"
    by (auto simp: tg_control_def can_happen_def)
  show ?thesis
  proof (cases "tg_op_of ev")
    case None
    then obtain p where "ev = Tg_add_payload p" by (rule tg_call)
    with ok show ?thesis
      by (cases "(list_ex transport_error evs, list_ex sni_error evs, obj c, pend c)"
          rule: tg_pending_ok.cases)
        (auto simp: tg_control_def happen_def conf_of_def add_payload_def)
  next
    case (Some p)
    from completes_only [OF assms(2) Some tg_pending_single [OF ok(2)]] have "pend c = [p]" .
    with Some ok show ?thesis
      by (cases ev)
        (auto simp: tg_control_def happen_def conf_of_def tg_defs emit_then_def Let_def
          split: option.splits list.splits)
  qed
qed

lemma tg_inv_start: "\<exists>p. c = tg_launch p \<Longrightarrow> tg_inv token c [] c"
  by (auto simp: tg_inv_def tg_fifo_def tg_control_def tg_defs async_defs)

lemma tg_inv_step:
  assumes "tg_inv token c0 evs c" "can_happen tg_op_of (\<lambda>_ _. True) ev c"
  shows "tg_inv token c0 (evs @ [ev]) (happen tg_op_of (tg_handle token) ev c)"
  using assms by (simp add: tg_inv_def [of _ _ "evs @ [ev]"] tg_fifo_step)
    (simp add: tg_inv_def tg_control_step)

interpretation tg: checked_client tg_op_of "\<lambda>_ _. True" "tg_handle token"
  "\<lambda>c. \<exists>p. c = tg_launch p" "tg_inv token" "\<lambda>_ evs e. list_ex transport_error evs" for token
  by unfold_locales (erule tg_inv_start, erule (1) tg_inv_step, auto simp: tg_inv_def tg_control_def)

lemma tg_reached: "tg_exec token evs (tg_launch p) = Some c \<Longrightarrow> tg_inv token (tg_launch p) evs c"
  by (rule tg.inv_run, assumption, intro exI, rule refl)

text \<open>A sender that some run reached.\<close>

definition tg_sound :: "string \<Rightarrow> tg_conf \<Rightarrow> bool" where
  "tg_sound token c \<longleftrightarrow> (\<exists>c0 evs. tg_inv token c0 evs c)"

lemma tg_sound_launch [simp]: "tg_sound token (tg_launch p)"
  unfolding tg_sound_def by (intro exI, rule tg_inv_start, rule exI, rule refl)

lemma tg_sound_step:
  assumes "tg_sound token c" "can_happen tg_op_of (\<lambda>_ _. True) ev c"
  shows "tg_sound token (happen tg_op_of (tg_handle token) ev c)"
    and "fault (happen tg_op_of (tg_handle token) ev c) = Some e \<Longrightarrow>
      e = Undefined_behaviour \<and> s_payloads (obj c) = []"
proof -
  let ?c = "happen tg_op_of (tg_handle token) ev c"
  from assms obtain c0 evs where inv: "tg_inv token c0 (evs @ [ev]) ?c"
    unfolding tg_sound_def using tg_inv_step by blast
  then show "tg_sound token ?c" unfolding tg_sound_def by blast
  have "obj ?c = obj c" if "fault ?c = Some e"
    using that assms(2)
    by (cases "tg_handle token ev (obj c)") (auto simp: happen_def conf_of_def can_happen_def split: option.splits)
  with inv show "fault ?c = Some e \<Longrightarrow> e = Undefined_behaviour \<and> s_payloads (obj c) = []"
    by (auto simp: tg_inv_def tg_control_def)
qed

text \<open>A handler puts the front of its queue on the wire, or nothing.\<close>

lemma sender_moves:
  assumes "tg_sound token c" "can_happen tg_op_of (\<lambda>_ _. True) ev c" "tg_op_of ev \<noteq> None"
  shows "\<exists>xs. sent (outs (happen tg_op_of (tg_handle token) ev c)) = sent (outs c) @ xs
    \<and> map (tg_request token) (s_payloads (obj c))
      = xs @ map (tg_request token) (s_payloads (obj (happen tg_op_of (tg_handle token) ev c)))"
proof (cases "tg_handle token ev (obj c)")
  case (Inl e)
  then show ?thesis by (auto simp: happen_def conf_of_def Let_def split: option.splits)
next
  case (Inr r)
  then obtain s' as where r: "tg_handle token ev (obj c) = Inr (s', as)" by (cases r) auto
  from assms(1) obtain c0 evs where "tg_inv token c0 evs c" by (auto simp: tg_sound_def)
  with assms(2) tg_pending_single have "tg_op_of ev = Some Tg_handshake \<longrightarrow> s_request (obj c) = None"
    by (fastforce simp: tg_inv_def tg_control_def can_happen_def)
  moreover have "added [ev] = []" using assms(3) by (cases ev) simp_all
  ultimately have "map (tg_request token) (s_payloads (obj c)) = sent (emitted as) @ map (tg_request token) (s_payloads s')"
    using tg_handle_fifo [OF _ r] by simp
  with r show ?thesis by (auto simp: happen_def conf_of_def Let_def split: option.splits)
qed

section \<open>Properties\<close>

text \<open>
  C8. Messages leave in the order in which they were accepted, each at most once: at any moment
  the requests handed to the socket, followed by those for the messages still queued, are the
  requests for the accepted messages. No failure of the connection reorders or repeats a message.
\<close>

theorem tg_fifo_at_most_once:
  assumes "tg_exec token evs (tg_launch p) = Some c"
  shows "sent (outs c) @ map (tg_request token) (s_payloads (obj c))
    = map (tg_request token) (p # added evs)"
  using tg_reached [OF assms] by (auto simp: tg_inv_def tg_fifo_def tg_defs async_defs)

theorem tg_fifo_at_most_once_witness:
  "\<exists>c :: tg_conf. sent (outs c) @ map (tg_request ''T'') (s_payloads (obj c))
     = map (tg_request ''T'') [\<lparr>p_text = ''a'', p_chat_id = ''1''\<rparr>, \<lparr>p_text = ''b'', p_chat_id = ''2''\<rparr>]"
proof -
  let ?evs = "[Tg_resolved None, Tg_connected None None,
    Tg_add_payload \<lparr>p_text = ''b'', p_chat_id = ''2''\<rparr>, Tg_handshaken None]"
  obtain c where "tg_exec ''T'' ?evs (tg_launch \<lparr>p_text = ''a'', p_chat_id = ''1''\<rparr>) = Some c"
    by (simp add: tg_defs async_defs)
  from tg_fifo_at_most_once [OF this] show ?thesis by (auto intro!: exI [of _ c])
qed

text \<open>
  Without a failed write or read the sender never runs into undefined behaviour, whatever
  else fails and whenever messages are added.
\<close>

theorem tg_safe_without_transport_error:
  assumes "tg_exec token evs (tg_launch p) = Some c" "\<not> list_ex transport_error evs"
  shows "fault c = None"
  using tg.no_fault_run [OF assms(1)] assms(2) by blast

theorem tg_safe_without_transport_error_witness:
  "\<exists>c. tg_exec ''T'' [Tg_resolved (Some ''no route'')] (tg_launch \<lparr>p_text = ''a'', p_chat_id = ''1''\<rparr>)
     = Some c \<and> fault c = None"
proof -
  obtain c where c: "tg_exec ''T'' [Tg_resolved (Some ''no route'')]
      (tg_launch \<lparr>p_text = ''a'', p_chat_id = ''1''\<rparr>) = Some c"
    by (simp add: tg_defs async_defs)
  from tg_safe_without_transport_error [OF c] c show ?thesis by simp
qed

text \<open>
  A failed write of the only queued message loses it: after the reconnection that the code
  attempts, \<open>prepare_payload\<close> takes the front of an empty deque.
\<close>

theorem tg_write_error_then_empty_queue:
  "\<exists>c. tg_exec token [Tg_resolved None, Tg_connected None None, Tg_handshaken None,
      Tg_written (Some err), Tg_resolved None, Tg_connected None None, Tg_handshaken None]
      (tg_launch p) = Some c \<and> fault c = Some Undefined_behaviour \<and>
      sent (outs c) = [tg_request token p]"
  by (simp add: tg_defs async_defs Let_def)

text \<open>
  A sender that has nothing in flight has completed, or was left behind by a failed SNI call,
  which does not mark it completed; in the second case it still offers itself for new messages.
\<close>

theorem tg_idle_is_completed:
  assumes "tg_exec token evs (tg_launch p) = Some c" "fault c = None" "pend c = []"
  shows "completed_operation (obj c) \<or> list_ex sni_error evs"
  using tg_reached [OF assms(1)] assms(2,3)
  by (auto simp: tg_inv_def tg_control_def completed_operation_def)

theorem tg_idle_is_completed_witness:
  "\<exists>c. tg_exec ''T'' [Tg_resolved (Some ''no route'')] (tg_launch \<lparr>p_text = ''a'', p_chat_id = ''1''\<rparr>)
     = Some c \<and> completed_operation (obj c)"
proof -
  obtain c where c: "tg_exec ''T'' [Tg_resolved (Some ''no route'')]
      (tg_launch \<lparr>p_text = ''a'', p_chat_id = ''1''\<rparr>) = Some c" "fault c = None" "pend c = []"
    by (simp add: tg_defs async_defs)
  from tg_idle_is_completed [OF c] c(1) show ?thesis by simp
qed

text \<open>
  After a failed SNI call no operation is in flight and none is ever started again, yet the
  sender accepts up to twenty messages as available.
\<close>

theorem tg_sni_failure_strands:
  "\<exists>c. tg_exec token ([Tg_resolved None, Tg_connected None (Some err)] @ map Tg_add_payload ps)
      (tg_launch p) = Some c \<and> pend c = [] \<and> sent (outs c) = [] \<and> s_payloads (obj c) = p # ps \<and>
      available_with_less_tasks (obj c) = (length ps < 19)"
proof -
  have add: "tg_exec token (map Tg_add_payload ps) c = Some (c\<lparr>obj := (obj c)
      \<lparr>s_payloads := s_payloads (obj c) @ ps\<rparr>\<rparr>)" if "fault c = None" for c :: tg_conf and ps
    using that by (induction ps arbitrary: c) (simp_all add: tg_defs async_defs)
  show ?thesis
    by (simp add: tg_defs async_defs add available_with_less_tasks_def)
qed

end
