(* ===== verification/Chat_Update.thy ===== *)
theory Chat_Update
  imports Async Http
begin

text \<open>
  binance_orders/src/chat_update.cpp: \<open>chat_update_t\<close> asks the Telegram bot API once for its updates
  and reports through its completion callback, whose arguments are the response and the error.
\<close>

section \<open>State\<close>

record chat_update =
  cu_resolver :: bool
  cu_stream :: bool
  cu_buffer :: bool
  cu_request :: "http_request option"
  cu_response :: "string option"
  cu_has_callback :: bool

datatype cu_op = Cu_resolve | Cu_connect | Cu_handshake | Cu_write | Cu_read

datatype cu_out = Cu_sent http_request | Cu_callback string string

datatype cu_event =
    Cu_resolved "string option"
  | Cu_connected "string option" "string option"
  | Cu_handshaken "string option"
  | Cu_written "string option"
  | Cu_read_done "string option" string

type_synonym cu_handler = "(chat_update, cu_op, cu_out) handler"
type_synonym cu_conf = "(chat_update, cu_op, cu_out) conf"

definition cu_host :: string where
  "cu_host = ''api.telegram.org''"

definition new_chat_update :: "bool \<Rightarrow> chat_update" where
  "new_chat_update cb = \<lparr>cu_resolver = False, cu_stream = False, cu_buffer = False,
     cu_request = None, cu_response = None, cu_has_callback = cb\<rparr>"

section \<open>Operations\<close>

definition set_error :: "string \<Rightarrow> cu_handler" where
  "set_error error_message s = ok (s, if cu_has_callback s then [Emit (Cu_callback [] error_message)] else [])"

definition set_result :: "string \<Rightarrow> cu_handler" where
  "set_result msg s = ok (s, if cu_has_callback s then [Emit (Cu_callback msg [])] else [])"

definition cu_run :: cu_handler where
  "cu_run s = ok (s\<lparr>cu_resolver := True\<rparr>, [Start Cu_resolve])"

definition connect_to_resolved_names :: cu_handler where
  "connect_to_resolved_names s = ok (s\<lparr>cu_resolver := False, cu_stream := True\<rparr>, [Start Cu_connect])"

definition cu_perform_ssl_handshake :: "string option \<Rightarrow> cu_handler" where
  "cu_perform_ssl_handshake sni s =
     (if \<not> cu_stream s then raise Undefined_behaviour
      else case sni of Some msg \<Rightarrow> set_error msg s | None \<Rightarrow> ok (s, [Start Cu_handshake]))"

definition updates_request :: "string \<Rightarrow> http_request" where
  "updates_request token =
     set_field ''Accept-Language'' ''en-US,en;q=0.5 --compressed''
     (set_field ''Accept'' ''*/*''
     (set_field ''User-Agent'' ''BinanceAgent/1.0.0''
     (set_field ''Host'' cu_host
     (empty_request\<lparr>h_method := Verb_get, h_target := ''/bot'' @ token @ ''/getUpdates''\<rparr>))))"

definition prepare_http_request :: "string \<Rightarrow> chat_update \<Rightarrow> chat_update" where
  "prepare_http_request token s = s\<lparr>cu_request := Some (updates_request token)\<rparr>"

definition send_http_request :: cu_handler where
  "send_http_request s = (case cu_request s of
     None \<Rightarrow> raise Undefined_behaviour
   | Some r \<Rightarrow> (if cu_stream s then ok (s, [Emit (Cu_sent r), Start Cu_write]) else raise Undefined_behaviour))"

definition get_bot_updates :: "string \<Rightarrow> cu_handler" where
  "get_bot_updates token s = send_http_request (prepare_http_request token s)"

definition receive_http_response :: cu_handler where
  "receive_http_response s =
     (if cu_stream s
      then ok (s\<lparr>cu_request := None, cu_buffer := True, cu_response := Some []\<rparr>, [Start Cu_read])
      else raise Undefined_behaviour)"

definition cu_on_read :: "string \<Rightarrow> cu_handler" where
  "cu_on_read body s = (case cu_response s of
     None \<Rightarrow> raise Undefined_behaviour
   | Some _ \<Rightarrow> set_result body (s\<lparr>cu_response := Some body\<rparr>))"

definition cu_done :: "string option \<Rightarrow> cu_handler \<Rightarrow> cu_handler" where
  "cu_done ec h = (case ec of Some msg \<Rightarrow> set_error msg | None \<Rightarrow> h)"

fun cu_handle :: "string \<Rightarrow> cu_event \<Rightarrow> cu_handler" where
  "cu_handle token (Cu_resolved ec) = cu_done ec connect_to_resolved_names"
| "cu_handle token (Cu_connected ec sni) = cu_done ec (cu_perform_ssl_handshake sni)"
| "cu_handle token (Cu_handshaken ec) = cu_done ec (get_bot_updates token)"
| "cu_handle token (Cu_written ec) = cu_done ec receive_http_response"
| "cu_handle token (Cu_read_done ec body) = cu_done ec (cu_on_read body)"

fun cu_op_of :: "cu_event \<Rightarrow> cu_op option" where
  "cu_op_of (Cu_resolved _) = Some Cu_resolve"
| "cu_op_of (Cu_connected _ _) = Some Cu_connect"
| "cu_op_of (Cu_handshaken _) = Some Cu_handshake"
| "cu_op_of (Cu_written _) = Some Cu_write"
| "cu_op_of (Cu_read_done _ _) = Some Cu_read"

definition cu_launch :: cu_conf where
  "cu_launch = conf_of (cu_run (new_chat_update True)) (conf_init (new_chat_update True))"

abbreviation cu_exec :: "string \<Rightarrow> cu_event list \<Rightarrow> cu_conf \<Rightarrow> cu_conf option" where
  "cu_exec token \<equiv> run_events cu_op_of (\<lambda>_ _. True) (cu_handle token)"

lemmas cu_defs = set_error_def set_result_def cu_run_def connect_to_resolved_names_def
  cu_perform_ssl_handshake_def prepare_http_request_def send_http_request_def get_bot_updates_def
  receive_http_response_def cu_on_read_def cu_done_def new_chat_update_def cu_launch_def

section \<open>The invariant\<close>

fun callbacks :: "cu_out list \<Rightarrow> (string \<times> string) list" where
  "callbacks [] = []"
| "callbacks (Cu_callback r e # os) = (r, e) # callbacks os"
| "callbacks (_ # os) = callbacks os"

lemma callbacks_append [simp]: "callbacks (xs @ ys) = callbacks xs @ callbacks ys"
  by (induction xs rule: callbacks.induct) auto

text \<open>Until the callback exactly one operation is in flight; afterwards none is.\<close>

fun cu_stage :: "chat_update \<Rightarrow> (string \<times> string) list \<Rightarrow> cu_op list \<Rightarrow> bool" where
  "cu_stage s cbs [] = (length cbs = 1 \<and> (fst (hd cbs) = [] \<or> snd (hd cbs) = []))"
| "cu_stage s cbs [Cu_resolve] = (cbs = [])"
| "cu_stage s cbs [Cu_read] = (cbs = [] \<and> cu_response s \<noteq> None)"
| "cu_stage s cbs [_] = (cbs = [] \<and> cu_stream s)"
| "cu_stage s cbs _ = False"

definition cu_inv :: "string \<Rightarrow> cu_conf \<Rightarrow> cu_event list \<Rightarrow> cu_conf \<Rightarrow> bool" where
  "cu_inv token c0 evs c \<longleftrightarrow> fault c = None \<and> cu_has_callback (obj c)
     \<and> cu_stage (obj c) (callbacks (outs c)) (pend c)"

lemma cu_stage_single: "cu_stage s cbs ps \<Longrightarrow> p \<in> set ps \<Longrightarrow> ps = [p]"
  by (cases "(s, cbs, ps)" rule: cu_stage.cases) auto

lemma cu_inv_start: "c = cu_launch \<Longrightarrow> cu_inv token c [] c"
  by (auto simp: cu_inv_def cu_defs async_defs)

lemma cu_pending:
  assumes "cu_inv token c0 evs c" "can_happen cu_op_of (\<lambda>_ _. True) ev c"
  obtains p where "cu_op_of ev = Some p" "pend c = [p]"
proof -
  obtain p where p: "cu_op_of ev = Some p" by (cases ev) auto
  from assms(1) have "cu_stage (obj c) (callbacks (outs c)) (pend c)" by (simp add: cu_inv_def)
  from that [OF p] completes_only [OF assms(2) p cu_stage_single [OF this]] show thesis .
qed

lemma cu_inv_step:
  assumes inv: "cu_inv token c0 evs c" and ev: "can_happen cu_op_of (\<lambda>_ _. True) ev c"
  shows "cu_inv token c0 (evs @ [ev]) (happen cu_op_of (cu_handle token) ev c)"
proof -
  from inv ev obtain p where "cu_op_of ev = Some p" "pend c = [p]" by (rule cu_pending)
  with inv show ?thesis
    by (cases ev) (auto simp: cu_inv_def happen_def conf_of_def cu_defs Let_def split: option.splits)
qed

text \<open>Every run ends: each event completes one operation and starts at most the next one.\<close>

fun cu_rank :: "cu_op list \<Rightarrow> nat" where
  "cu_rank [Cu_resolve] = 5"
| "cu_rank [Cu_connect] = 4"
| "cu_rank [Cu_handshake] = 3"
| "cu_rank [Cu_write] = 2"
| "cu_rank [Cu_read] = 1"
| "cu_rank _ = 0"

lemma cu_rank_step:
  assumes "cu_inv token c0 evs c" "can_happen cu_op_of (\<lambda>_ _. True) ev c"
  shows "cu_rank (pend (happen cu_op_of (cu_handle token) ev c)) < cu_rank (pend c)"
proof -
  from assms obtain p where "cu_op_of ev = Some p" "pend c = [p]" by (rule cu_pending)
  with assms(1) show ?thesis
    by (cases ev) (auto simp: cu_inv_def happen_def conf_of_def cu_defs Let_def split: option.splits)
qed

interpretation cu: safe_client cu_op_of "\<lambda>_ _. True" "cu_handle token"
  "\<lambda>c. c = cu_launch" "cu_inv token" for token
  by unfold_locales (erule cu_inv_start, erule (1) cu_inv_step, simp add: cu_inv_def)

interpretation cu: finite_client cu_op_of "\<lambda>_ _. True" "cu_handle token"
  "\<lambda>c. c = cu_launch" "cu_inv token" "\<lambda>c. cu_rank (pend c)" for token
  by unfold_locales (rule cu_rank_step)

section \<open>Properties\<close>

text \<open>
  C35. An update request ends within five completions, without undefined behaviour, and calls back
  exactly once, when nothing is in flight any more: \<open>io_context.run()\<close> of the caller returns with the
  result, whatever fails.
\<close>

theorem chat_update_calls_back_once:
  assumes "cu_exec token evs cu_launch = Some c"
  shows "fault c = None \<and> length evs \<le> 5 \<and> (length (callbacks (outs c)) = (if pend c = [] then 1 else 0))"
proof -
  from cu.inv_run [OF assms refl] have "cu_stage (obj c) (callbacks (outs c)) (pend c)" by (simp add: cu_inv_def)
  then have "length (callbacks (outs c)) = (if pend c = [] then 1 else 0)"
    by (cases "(obj c, callbacks (outs c), pend c)" rule: cu_stage.cases) auto
  moreover have "length evs \<le> 5" using cu.length_run [OF assms refl] by (simp add: cu_defs async_defs)
  ultimately show ?thesis using cu.no_fault_run [OF assms refl] by simp
qed

theorem chat_update_calls_back_once_witness:
  "\<exists>c :: cu_conf. callbacks (outs c) = [([], ''timeout'')] \<and> fault c = None \<and> pend c = []
     \<and> length (callbacks (outs c)) = 1"
proof -
  obtain c where c: "cu_exec ''T'' [Cu_resolved None, Cu_connected (Some ''timeout'') None] cu_launch = Some c"
    "pend c = []" "callbacks (outs c) = [([], ''timeout'')]"
    by (simp add: cu_defs async_defs)
  from chat_update_calls_back_once [OF c(1)] c(2,3) show ?thesis by (intro exI [of _ c]) simp
qed

end
