(* ===== verification/Database.thy ===== *)
theory Database
  imports Orders_Info Json "HOL-Library.List_Lexorder" "HOL-Library.Char_ord"
begin

text \<open>
  binance_orders/src/database_connector.cpp: the configuration file, the SQL statements that
  \<open>database_connector_t\<close> formats, and its operations. The database behind OTL is outside the
  repository: a record of functions over an abstract database state, each of which may throw an
  \<open>otl_exception\<close> (\<open>None\<close>). The operations on the tables hold \<open>db_mutex_\<close>, so that each is one
  atomic step; the thread of \<open>keep_sql_server_busy\<close> uses the connection without it.
\<close>

section \<open>Formatting\<close>

text \<open>The formatting of fmt with automatic numbering: each \<open>{}\<close> takes the next argument.\<close>

function fmt :: "string \<Rightarrow> string list \<Rightarrow> string" where
  "fmt [] args = []"
| "fmt (c # cs) args =
     (if c = CHR ''{'' \<and> cs \<noteq> [] \<and> hd cs = CHR ''}'' \<and> args \<noteq> []
      then hd args @ fmt (tl cs) (tl args) else c # fmt cs args)"
  by pat_completeness auto
termination by (relation "measure (\<lambda>(cs, _). length cs)") auto

definition string_or_null :: "string \<Rightarrow> string" where
  "string_or_null str = (if str = [] then ''NULL'' else [CHR 0x27] @ str @ [CHR 0x27])"

definition pad_02d :: "nat \<Rightarrow> string" where
  "pad_02d n = (if n < 10 then CHR ''0'' # nat_to_string n else nat_to_string n)"

record otl_datetime =
  dt_year :: nat
  dt_month :: nat
  dt_day :: nat
  dt_hour :: nat
  dt_minute :: nat
  dt_second :: nat

definition otl_datetime_to_string :: "otl_datetime \<Rightarrow> string" where
  "otl_datetime_to_string date = nat_to_string (dt_year date) @ ''-'' @ pad_02d (dt_month date)
     @ ''-'' @ pad_02d (dt_day date) @ '' '' @ pad_02d (dt_hour date) @ '':''
     @ pad_02d (dt_minute date) @ '':'' @ pad_02d (dt_second date)"

section \<open>Configuration\<close>

record db_config_t =
  db_username :: string
  db_password :: string
  db_dns :: string
  bot_token :: string

text \<open>\<open>operator bool\<close>.\<close>

definition db_config_set :: "db_config_t \<Rightarrow> bool" where
  "db_config_set c \<longleftrightarrow>
     \<not> (db_username c = [] \<and> db_password c = [] \<and> db_dns c = [] \<and> bot_token c = [])"

text \<open>One matching entry of the configuration list, and the loop over the list.\<close>

definition read_config :: "'f object_t \<Rightarrow> 'f object_t \<Rightarrow> db_config_t res" where
  "read_config file_content_object temp_object =
     rbind (obj_at temp_object ''data'') (\<lambda>data.
     rbind (get_object data) (\<lambda>db_data.
     rbind (get_value_string db_data ''username'') (\<lambda>username.
     rbind (get_value_string db_data ''password'') (\<lambda>password.
     rbind (get_value_string db_data ''db_dns'') (\<lambda>dns.
     rbind (get_value_string file_content_object ''bot_token'') (\<lambda>token.
     ok \<lparr>db_username = username, db_password = password, db_dns = dns, bot_token = token\<rparr>))))))"

fun find_config ::
  "'f object_t \<Rightarrow> string \<Rightarrow> 'f json list \<Rightarrow> db_config_t option res" where
  "find_config file config_name [] = ok None"
| "find_config file config_name (config_data # rest) =
     rbind (get_object config_data) (\<lambda>temp_object.
       if map_of temp_object ''type'' = Some (J_string config_name)
       then rbind (read_config file temp_object) (\<lambda>c. ok (Some c))
       else find_config file config_name rest)"

definition parse_config_file ::
  "(string \<Rightarrow> 'f json option) \<Rightarrow> string option \<Rightarrow> string \<Rightarrow> db_config_t option" where
  "parse_config_file parse contents config_name =
     (case read_object_json_file parse contents of
        None \<Rightarrow> None
      | Some file \<Rightarrow>
          (case map_of file ''database'' of
             None \<Rightarrow> None
           | Some database \<Rightarrow>
               (case rbind (get_array database) (find_config file config_name) of
                  Inl _ \<Rightarrow> None
                | Inr r \<Rightarrow> r)))"

section \<open>Statements\<close>

definition quoted_hole :: string where
  "quoted_hole = [CHR 0x27] @ ''{}'' @ [CHR 0x27]"

definition add_new_host_sql :: "host_info_t \<Rightarrow> string" where
  "add_new_host_sql h = fmt
     (''INSERT INTO hosts(api_key, secret_key, alias, tg_group) VALUES''
      @ ''('' @ quoted_hole @ '', '' @ quoted_hole @ '','' @ quoted_hole @ '', '' @ quoted_hole @ '')'')
     [api_key h, secret_key h, account_alias h, tg_group_name h]"

definition add_new_balance_sql :: "string \<Rightarrow> ws_balance_info_t \<Rightarrow> string" where
  "add_new_balance_sql table_name balance = fmt
     (''INSERT INTO {} (instrument_id, balance, event_time, clear_time)''
      @ ''VALUES ('' @ quoted_hole @ '', '' @ quoted_hole @ '', {}, {})'')
     [table_name, b_instrument_id balance, b_balance balance,
      string_or_null (b_event_time balance), string_or_null (b_clear_time balance)]"

definition add_new_order_sql :: "string \<Rightarrow> ws_order_info_t \<Rightarrow> string" where
  "add_new_order_sql tablename order = fmt
     (''INSERT INTO {} (instrument_id, order_side, order_type,''
      @ ''time_in_force, quantity_purchased, order_price, stop_price, ''
      @ ''execution_type, order_status, reject_reason, order_id, ''
      @ ''last_filled_quantity, cummulative_filled_quantity, last_executed_price,''
      @ ''commission_amount, commission_asset, trade_id, event_time, ''
      @ ''transaction_time, created_time) VALUES''
      @ ''('' @ concat (replicate 15 (quoted_hole @ '', '')) @ ''{}, '' @ quoted_hole
      @ '', {}, {}, {})'')
     [tablename, o_instrument_id order, o_order_side order, o_order_type order,
      o_time_in_force order, o_quantity_purchased order, o_order_price order,
      o_stop_price order, o_execution_type order, o_order_status order,
      o_reject_reason order, o_order_id order, o_last_filled_quantity order,
      o_cummulative_filled_quantity order, o_last_executed_price order,
      o_commission_amount order, string_or_null (o_commission_asset order),
      o_trade_id order, string_or_null (o_event_time order),
      string_or_null (o_transaction_time order), string_or_null (o_created_time order)]"

text \<open>The \<open>CREATE TABLE\<close> statements: lines are separated by newlines and start with a tab or four
  spaces.\<close>

definition utf8_collation :: string where
  "utf8_collation = [CHR 0x27] @ ''utf8mb4_unicode_ci'' @ [CHR 0x27]"

definition column :: "string \<Rightarrow> string \<Rightarrow> string \<Rightarrow> string" where
  "column indent name type = indent @ ''`'' @ name @ ''` '' @ type @ '','' @ [CHR 0x0A]"

definition varchar50 :: "string \<Rightarrow> string" where
  "varchar50 dflt = ''VARCHAR(50) NULL DEFAULT '' @ dflt @ '' COLLATE '' @ utf8_collation"

definition datetime_null :: string where
  "datetime_null = ''DATETIME NULL DEFAULT NULL''"

definition tab :: string where
  "tab = [CHR 0x09]"

definition table_end :: string where
  "table_end = '') COLLATE='' @ utf8_collation @ '' ENGINE=InnoDB''"

definition primary_key :: string where
  "primary_key = ''    PRIMARY KEY (`id`) USING BTREE''"

definition create_telegram_cache_table_sql :: string where
  "create_telegram_cache_table_sql =
     ''CREATE TABLE if not exists `tg_id_cache` ('' @ [CHR 0x0A]
     @ column tab ''id'' ''INT NOT NULL AUTO_INCREMENT''
     @ column tab ''group_name'' (varchar50 ''NULL'') @ column tab ''group_id'' (varchar50 ''NULL'')
     @ primary_key @ '','' @ [CHR 0x0A]
     @ ''    UNIQUE INDEX `group_name` (`group_name`) USING BTREE'' @ [CHR 0x0A]
     @ ''    '' @ table_end"

definition create_balance_table_sql :: "string \<Rightarrow> string" where
  "create_balance_table_sql table_name = fmt
     (''CREATE TABLE if not exists `{}` ('' @ [CHR 0x0A]
      @ column tab ''id'' ''INT(10) NOT NULL AUTO_INCREMENT''
      @ column tab ''instrument_id'' (varchar50 ''NULL'') @ column tab ''balance'' (varchar50 ''NULL'')
      @ column ''    '' ''event_time'' datetime_null @ column tab ''clear_time'' datetime_null
      @ primary_key @ table_end) [table_name]"

definition order_columns :: "string list" where
  "order_columns = [''instrument_id'', ''order_side'', ''order_type'', ''time_in_force'',
     ''quantity_purchased'', ''order_price'', ''stop_price'', ''execution_type'', ''order_status'',
     ''reject_reason'', ''order_id'', ''last_filled_quantity'', ''cummulative_filled_quantity'',
     ''last_executed_price'', ''commission_amount'', ''commission_asset'', ''trade_id'']"

definition create_order_table_sql :: "string \<Rightarrow> string" where
  "create_order_table_sql tablename = fmt
     (''CREATE TABLE if not exists `{}` ('' @ [CHR 0x0A]
      @ column tab ''id'' ''INT(10) NOT NULL AUTO_INCREMENT''
      @ concat (map (\<lambda>c. column tab c (varchar50 [CHR 0x27, CHR 0x27])) order_columns)
      @ column tab ''transaction_time'' datetime_null @ column tab ''event_time'' datetime_null
      @ column tab ''created_time'' datetime_null @ primary_key @ table_end) [tablename]"

section \<open>The cached Telegram chats\<close>

record tg_chat_id_t =
  database_id :: int
  telegram_chat_id :: string

text \<open>\<open>std::map\<close>: an association list sorted by key; \<open>map_set\<close> is an assignment through \<open>operator[]\<close>.\<close>

type_synonym tg_ccached_map_t = "(string \<times> tg_chat_id_t) list"

fun map_set :: "'k :: linorder \<Rightarrow> 'v \<Rightarrow> ('k \<times> 'v) list \<Rightarrow> ('k \<times> 'v) list" where
  "map_set k v [] = [(k, v)]"
| "map_set k v ((k', v') # m) =
     (if k = k' then (k, v) # m
      else if k < k' then (k, v) # (k', v') # m
      else (k', v') # map_set k v m)"

definition cached_id_sql :: "string \<times> tg_chat_id_t \<Rightarrow> string" where
  "cached_id_sql = (\<lambda>(chat_name, chat_info).
     if database_id chat_info = 0
     then fmt (''INSERT INTO `tg_id_cache`(group_id, group_name)'' @ ''VALUES ('' @ quoted_hole
         @ '', '' @ quoted_hole @ '')'') [telegram_chat_id chat_info, chat_name]
     else fmt (''UPDATE `tg_id_cache` SET group_id='' @ quoted_hole @ '', group_name=''
         @ quoted_hole @ '' WHERE id='' @ quoted_hole)
         [telegram_chat_id chat_info, chat_name, int_to_string (database_id chat_info)])"

section \<open>The connector\<close>

text \<open>
  What the connector uses of OTL and the database behind it. The selections give the rows fetched
  before the end of the cursor or before an exception.
\<close>

record 'db otl =
  direct_exec :: "string \<Rightarrow> 'db \<Rightarrow> 'db option"
  select_hosts :: "'db \<Rightarrow> (string \<times> string \<times> string \<times> string) list"
  select_chats :: "'db \<Rightarrow> (string \<times> string \<times> int) list"
  rlogon :: "string \<Rightarrow> 'db \<Rightarrow> 'db option"
  logoff :: "'db \<Rightarrow> 'db"

record 'db database_connector_t =
  db_config :: db_config_t
  otl_connector :: 'db
  is_running :: bool
  keeper_thread :: bool

definition new_connector :: "'db \<Rightarrow> 'db database_connector_t" where
  "new_connector db = \<lparr>db_config = \<lparr>db_username = [], db_password = [], db_dns = [], bot_token = []\<rparr>,
     otl_connector = db, is_running = False, keeper_thread = False\<rparr>"

definition set_username :: "string \<Rightarrow> 'db database_connector_t \<Rightarrow> 'db database_connector_t" where
  "set_username username c = c\<lparr>db_config := (db_config c)\<lparr>db_username := username\<rparr>\<rparr>"

definition set_password :: "string \<Rightarrow> 'db database_connector_t \<Rightarrow> 'db database_connector_t" where
  "set_password password c = c\<lparr>db_config := (db_config c)\<lparr>db_password := password\<rparr>\<rparr>"

definition set_database_name :: "string \<Rightarrow> 'db database_connector_t \<Rightarrow> 'db database_connector_t" where
  "set_database_name db_name c = c\<lparr>db_config := (db_config c)\<lparr>db_dns := db_name\<rparr>\<rparr>"

definition login_str :: "db_config_t \<Rightarrow> string" where
  "login_str c = fmt (''{}/{}@'' @ ''{}'') [db_username c, db_password c, db_dns c]"

definition connect :: "'db otl \<Rightarrow> 'db database_connector_t \<Rightarrow> (bool \<times> 'db database_connector_t) res" where
  "connect otl c =
     (if \<not> db_config_set (db_config c) then raise (Runtime_error ''configuration incomplete'')
      else if is_running c then ok (is_running c, c)
      else case rlogon otl (login_str (db_config c)) (otl_connector c) of
        Some db \<Rightarrow> ok (True, c\<lparr>otl_connector := db, keeper_thread := True, is_running := True\<rparr>)
      | None \<Rightarrow> ok (is_running c, c))"

text \<open>
  One iteration of the thread that keeps the connection busy. \<open>rlogon\<close> is called in the handler of
  the exception, so its own exception leaves the thread's function.
\<close>

definition keep_sql_server_busy :: "'db otl \<Rightarrow> 'db database_connector_t \<Rightarrow> 'db database_connector_t res" where
  "keep_sql_server_busy otl c =
     (case direct_exec otl ''select 1'' (otl_connector c) of
        Some db \<Rightarrow> ok (c\<lparr>otl_connector := db\<rparr>)
      | None \<Rightarrow>
          (case rlogon otl (login_str (db_config c)) (logoff otl (otl_connector c)) of
             Some db \<Rightarrow> ok (c\<lparr>otl_connector := db\<rparr>)
           | None \<Rightarrow> raise (Runtime_error ''otl_exception'')))"

text \<open>The pattern of the other operations: an exception is logged and dropped.\<close>

definition exec_logged :: "'db otl \<Rightarrow> string \<Rightarrow> 'db \<Rightarrow> 'db" where
  "exec_logged otl stmt db = (case direct_exec otl stmt db of Some db' \<Rightarrow> db' | None \<Rightarrow> db)"

definition get_available_hosts :: "'db otl \<Rightarrow> 'db \<Rightarrow> host_info_t list" where
  "get_available_hosts otl db =
     map (\<lambda>(al, key, secret, grp). \<lparr>account_alias = al, api_key = key, secret_key = secret,
       tg_group_name = grp, changes = no_changes\<rparr>) (select_hosts otl db)"

definition add_new_host :: "'db otl \<Rightarrow> host_info_t \<Rightarrow> 'db \<Rightarrow> bool \<times> 'db" where
  "add_new_host otl host_info db =
     (case direct_exec otl (add_new_host_sql host_info) db of
        Some db' \<Rightarrow> (True, db') | None \<Rightarrow> (False, db))"

definition create_telegram_cache_table :: "'db otl \<Rightarrow> 'db \<Rightarrow> 'db" where
  "create_telegram_cache_table otl = exec_logged otl create_telegram_cache_table_sql"

definition create_balance_table :: "'db otl \<Rightarrow> string \<Rightarrow> 'db \<Rightarrow> 'db" where
  "create_balance_table otl table_name = exec_logged otl (create_balance_table_sql table_name)"

definition create_order_table :: "'db otl \<Rightarrow> string \<Rightarrow> 'db \<Rightarrow> 'db" where
  "create_order_table otl tablename = exec_logged otl (create_order_table_sql tablename)"

definition add_new_balance :: "'db otl \<Rightarrow> string \<Rightarrow> ws_balance_info_t \<Rightarrow> 'db \<Rightarrow> 'db" where
  "add_new_balance otl table_name balance = exec_logged otl (add_new_balance_sql table_name balance)"

definition add_new_order :: "'db otl \<Rightarrow> string \<Rightarrow> ws_order_info_t \<Rightarrow> 'db \<Rightarrow> 'db" where
  "add_new_order otl tablename order = exec_logged otl (add_new_order_sql tablename order)"

definition get_tg_cached_ids :: "'db otl \<Rightarrow> 'db \<Rightarrow> tg_ccached_map_t \<times> 'db" where
  "get_tg_cached_ids otl db = (let db' = create_telegram_cache_table otl db in
     (fold (\<lambda>(group_id, group_name, i). map_set group_name
         \<lparr>database_id = i, telegram_chat_id = group_id\<rparr>) (select_chats otl db') [], db'))"

definition insert_update_cached_ids :: "'db otl \<Rightarrow> tg_ccached_map_t \<Rightarrow> 'db \<Rightarrow> 'db" where
  "insert_update_cached_ids otl chat_id_map db =
     fold (\<lambda>entry. exec_logged otl (cached_id_sql entry)) chat_id_map db"

section \<open>Reading the configuration\<close>

lemma read_config_ok:
  "read_config file t = Inr cfg \<longleftrightarrow>
     (\<exists>d. map_of t ''data'' = Some (J_object d)
       \<and> map_of d ''username'' = Some (J_string (db_username cfg))
       \<and> map_of d ''password'' = Some (J_string (db_password cfg))
       \<and> map_of d ''db_dns'' = Some (J_string (db_dns cfg))
       \<and> map_of file ''bot_token'' = Some (J_string (bot_token cfg)))"
  by (cases cfg) (auto simp: read_config_def res_simps json_ok)

lemma find_config_ok:
  "find_config file name js = Inr (Some cfg) \<longleftrightarrow>
     (\<exists>pre t post. js = pre @ J_object t # post \<and> map_of t ''type'' = Some (J_string name)
       \<and> read_config file t = Inr cfg
       \<and> list_all (\<lambda>j. \<exists>obj. j = J_object obj \<and> map_of obj ''type'' \<noteq> Some (J_string name)) pre)"
  (is "_ \<longleftrightarrow> ?spec js")
proof (induction js)
  case Nil
  then show ?case by simp
next
  case (Cons j js)
  have spec: "?spec (j # js) \<longleftrightarrow> (\<exists>t. j = J_object t \<and>
      (if map_of t ''type'' = Some (J_string name) then read_config file t = Inr cfg else ?spec js))"
    (is "?lhs \<longleftrightarrow> ?rhs")
  proof
    assume ?lhs
    then obtain pre t post where h: "j # js = pre @ J_object t # post"
      "map_of t ''type'' = Some (J_string name)" "read_config file t = Inr cfg"
      "list_all (\<lambda>j. \<exists>obj. j = J_object obj \<and> map_of obj ''type'' \<noteq> Some (J_string name)) pre" by blast
    then show ?rhs by (cases pre) auto
  next
    assume ?rhs
    then obtain t where j: "j = J_object t"
      and t: "if map_of t ''type'' = Some (J_string name) then read_config file t = Inr cfg else ?spec js"
      by blast
    show ?lhs
    proof (cases "map_of t ''type'' = Some (J_string name)")
      case True
      with j t show ?thesis by (intro exI [of _ "[]"] exI [of _ t] exI [of _ js]) simp
    next
      case False
      with t obtain pre t' post where h: "js = pre @ J_object t' # post"
        "map_of t' ''type'' = Some (J_string name)" "read_config file t' = Inr cfg"
        "list_all (\<lambda>j. \<exists>obj. j = J_object obj \<and> map_of obj ''type'' \<noteq> Some (J_string name)) pre"
        by auto
      with j False show ?thesis
        by (intro exI [of _ "j # pre"] exI [of _ t'] exI [of _ post]) simp
    qed
  qed
  have "find_config file name (j # js) = Inr (Some cfg) \<longleftrightarrow> (\<exists>t. j = J_object t \<and>
      (if map_of t ''type'' = Some (J_string name) then read_config file t = Inr cfg else ?spec js))"
    using Cons.IH by (auto simp: res_simps json_ok split: if_splits)
  with spec show ?case by blast
qed

section \<open>Literals in statements\<close>

text \<open>
  The string literals of a MySQL statement: a quote opens a literal, a backslash inside escapes the
  next character.
\<close>

fun sql_lit :: "string \<Rightarrow> string \<times> string" where
  "sql_lit [] = ([], [])"
| "sql_lit (c # cs) =
     (if c = CHR 0x27 then ([], cs)
      else if c = CHR 0x5C \<and> cs \<noteq> [] then map_prod (Cons (hd cs)) id (sql_lit (tl cs))
      else map_prod (Cons c) id (sql_lit cs))"

lemma sql_lit_shorter: "length (snd (sql_lit cs)) \<le> length cs"
  by (induction cs rule: sql_lit.induct) auto

function sql_literals :: "string \<Rightarrow> string list" where
  "sql_literals [] = []"
| "sql_literals (c # cs) =
     (if c = CHR 0x27 then fst (sql_lit cs) # sql_literals (snd (sql_lit cs)) else sql_literals cs)"
  by pat_completeness auto
termination
  by (relation "measure length") (auto simp: le_imp_less_Suc sql_lit_shorter)

definition unquoted :: "string \<Rightarrow> bool" where
  "unquoted s \<longleftrightarrow> CHR 0x27 \<notin> set s \<and> CHR 0x5C \<notin> set s"

lemma sql_lit_unquoted: "unquoted v \<Longrightarrow> sql_lit (v @ CHR 0x27 # rest) = (v, rest)"
  by (induction v) (auto simp: unquoted_def)

lemma sql_literals_quoted:
  "unquoted v \<Longrightarrow> sql_literals (CHR 0x27 # v @ CHR 0x27 # rest) = v # sql_literals rest"
  by (simp add: sql_lit_unquoted)

lemma sql_literals_skip: "CHR 0x27 \<notin> set s \<Longrightarrow> sql_literals (s @ rest) = sql_literals rest"
  by (induction s) auto

definition opt_literal :: "string \<Rightarrow> string list" where
  "opt_literal s = (if s = [] then [] else [s])"

lemma sql_literals_or_null:
  "unquoted v \<Longrightarrow> sql_literals (string_or_null v @ rest) = opt_literal v @ sql_literals rest"
  by (simp add: string_or_null_def opt_literal_def sql_literals_quoted del: sql_literals.simps)
    (simp)

lemma fmt_skip: "CHR ''{'' \<notin> set s \<Longrightarrow> fmt (s @ t) args = s @ fmt t args"
  by (induction s) auto

lemma fmt_hole: "fmt (''{}'' @ t) (a # args) = a @ fmt t args"
  by simp

lemma fmt_quoted: "fmt (quoted_hole @ t) (a # args) = CHR 0x27 # a @ CHR 0x27 # fmt t args"
  by (simp add: quoted_hole_def)

definition host_fields :: "host_info_t \<Rightarrow> string list" where
  "host_fields h = [api_key h, secret_key h, account_alias h, tg_group_name h]"

lemma add_new_host_sql_text:
  "add_new_host_sql h = ''INSERT INTO hosts(api_key, secret_key, alias, tg_group) VALUES('' @
     CHR 0x27 # api_key h @ CHR 0x27 # '', '' @ CHR 0x27 # secret_key h @ CHR 0x27 # '','' @
     CHR 0x27 # account_alias h @ CHR 0x27 # '', '' @ CHR 0x27 # tg_group_name h @ CHR 0x27 # '')''"
  by (simp add: add_new_host_sql_def quoted_hole_def)

definition order_fields :: "ws_order_info_t \<Rightarrow> string list" where
  "order_fields order = [o_instrument_id order, o_order_side order, o_order_type order,
      o_time_in_force order, o_quantity_purchased order, o_order_price order,
      o_stop_price order, o_execution_type order, o_order_status order,
      o_reject_reason order, o_order_id order, o_last_filled_quantity order,
      o_cummulative_filled_quantity order, o_last_executed_price order,
      o_commission_amount order] @ opt_literal (o_commission_asset order) @ [o_trade_id order]
    @ opt_literal (o_event_time order) @ opt_literal (o_transaction_time order)
    @ opt_literal (o_created_time order)"

definition order_values :: "ws_order_info_t \<Rightarrow> string list" where
  "order_values order = [o_instrument_id order, o_order_side order, o_order_type order,
      o_time_in_force order, o_quantity_purchased order, o_order_price order,
      o_stop_price order, o_execution_type order, o_order_status order,
      o_reject_reason order, o_order_id order, o_last_filled_quantity order,
      o_cummulative_filled_quantity order, o_last_executed_price order,
      o_commission_amount order, o_commission_asset order, o_trade_id order,
      o_event_time order, o_transaction_time order, o_created_time order]"

lemmas fmt_text = fmt_skip fmt_hole fmt_quoted

lemma order_prefix:
  "fmt (''INSERT INTO {} (instrument_id, order_side, order_type,''
      @ ''time_in_force, quantity_purchased, order_price, stop_price, ''
      @ ''execution_type, order_status, reject_reason, order_id, ''
      @ ''last_filled_quantity, cummulative_filled_quantity, last_executed_price,''
      @ ''commission_amount, commission_asset, trade_id, event_time, ''
      @ ''transaction_time, created_time) VALUES'' @ ''('' @ t) (a # args)
   = ''INSERT INTO '' @ a @ '' (instrument_id, order_side, order_type,''
      @ ''time_in_force, quantity_purchased, order_price, stop_price, ''
      @ ''execution_type, order_status, reject_reason, order_id, ''
      @ ''last_filled_quantity, cummulative_filled_quantity, last_executed_price,''
      @ ''commission_amount, commission_asset, trade_id, event_time, ''
      @ ''transaction_time, created_time) VALUES('' @ fmt t args"
  by simp

lemma literals_hole:
  "unquoted a \<Longrightarrow> sql_literals (fmt (quoted_hole @ CHR '','' # CHR '' '' # t) (a # args)) = a # sql_literals (fmt t args)"
  by (simp add: fmt_quoted sql_lit_unquoted)

lemma literals_null_hole:
  "unquoted a \<Longrightarrow> sql_literals (fmt (CHR ''{'' # CHR ''}'' # CHR '','' # CHR '' '' # t) (string_or_null a # args))
    = opt_literal a @ sql_literals (fmt t args)"
  by (simp add: sql_literals_or_null)

lemma literals_null_end:
  "unquoted a \<Longrightarrow> sql_literals (fmt ''{})'' [string_or_null a]) = opt_literal a"
  using sql_literals_or_null [of a "'')''"] by simp

section \<open>Properties\<close>

text \<open>
  C26. The configuration is the one of the first entry of the requested type: a configuration is
  returned exactly when the file is a JSON object with a \<open>database\<close> array in which an entry of the
  type, with string credentials, follows only objects of other types, and \<open>bot_token\<close> is a string.
\<close>

theorem parse_config_file_iff:
  "parse_config_file parse contents name = Some cfg \<longleftrightarrow>
     (\<exists>text file pre t post d. contents = Some text \<and> parse text = Some (J_object file)
       \<and> map_of file ''database'' = Some (J_array (pre @ J_object t # post))
       \<and> list_all (\<lambda>j. \<exists>obj. j = J_object obj \<and> map_of obj ''type'' \<noteq> Some (J_string name)) pre
       \<and> map_of t ''type'' = Some (J_string name) \<and> map_of t ''data'' = Some (J_object d)
       \<and> map_of d ''username'' = Some (J_string (db_username cfg))
       \<and> map_of d ''password'' = Some (J_string (db_password cfg))
       \<and> map_of d ''db_dns'' = Some (J_string (db_dns cfg))
       \<and> map_of file ''bot_token'' = Some (J_string (bot_token cfg)))"
proof -
  have "parse_config_file parse contents name = Some cfg \<longleftrightarrow>
     (\<exists>text file js. contents = Some text \<and> parse text = Some (J_object file)
       \<and> map_of file ''database'' = Some (J_array js) \<and> find_config file name js = Inr (Some cfg))"
    by (auto simp: parse_config_file_def read_object_json_file_def read_json_file_def
        parse_json_def get_object_def get_array_def split: option.splits sum.splits json.splits)
  then show ?thesis unfolding find_config_ok read_config_ok by blast
qed

text \<open>
  The statement that stores a new host contains exactly the four fields as literals, in order,
  whenever no field contains a quote or a backslash.
\<close>

theorem add_new_host_sql_literals:
  assumes "list_all unquoted (host_fields h)"
  shows "sql_literals (add_new_host_sql h) = host_fields h"
  using assms by (simp add: add_new_host_sql_text host_fields_def sql_lit_unquoted)

theorem add_new_host_sql_literals_witness:
  "sql_literals (add_new_host_sql \<lparr>account_alias = ''main'', api_key = ''k'', secret_key = ''s'',
     tg_group_name = ''g'', changes = no_changes\<rparr>) = [''k'', ''s'', ''main'', ''g'']"
  using add_new_host_sql_literals [of "\<lparr>account_alias = ''main'', api_key = ''k'', secret_key = ''s'',
     tg_group_name = ''g'', changes = no_changes\<rparr>"]
  by (simp add: host_fields_def unquoted_def)

text \<open>
  A quote in a field is not escaped: an alias can close its literal and supply the rest of the
  statement, here another telegram group.
\<close>

theorem add_new_host_sql_injection:
  "\<exists>h. account_alias h = ''a'' @ CHR 0x27 # '', '' @ CHR 0x27 # ''evil'' @ CHR 0x27 # '');-- ''
     \<and> api_key h = ''k'' \<and> secret_key h = ''s''
     \<and> take 4 (sql_literals (add_new_host_sql h)) = [''k'', ''s'', ''a'', ''evil'']"
proof -
  let ?h = "\<lparr>account_alias = ''a'' @ CHR 0x27 # '', '' @ CHR 0x27 # ''evil'' @ CHR 0x27 # '');-- '',
    api_key = ''k'', secret_key = ''s'', tg_group_name = ''g'', changes = no_changes\<rparr>"
  have "take 4 (sql_literals (add_new_host_sql ?h)) = [''k'', ''s'', ''a'', ''evil'']"
    by (simp add: add_new_host_sql_text)
  then show ?thesis by (intro exI [of _ ?h]) simp
qed


definition example_order :: ws_order_info_t where
  "example_order = \<lparr>o_instrument_id = ''BTC'', o_order_side = ''BUY'', o_order_type = ''LIMIT'',
     o_time_in_force = ''GTC'', o_quantity_purchased = ''1'', o_order_price = ''2'',
     o_stop_price = ''0'', o_execution_type = ''NEW'', o_order_status = ''NEW'',
     o_reject_reason = ''NONE'', o_order_id = ''7'', o_last_filled_quantity = ''0'',
     o_cummulative_filled_quantity = ''0'', o_last_executed_price = ''0'', o_commission_amount = ''0'',
     o_commission_asset = [], o_trade_id = ''8'', o_event_time = [],
     o_transaction_time = ''2021'', o_created_time = ''2020'', o_for_aliased_account = ''main'',
     o_telegram_group = ''g''\<rparr>"


end
