(* ===== verification/Telegram.thy ===== *)
theory Telegram
  imports Url Database Chat_Update Tg_Sender "HOL-Library.Multiset"
begin

text \<open>
  binance_orders/src/telegram_process.cpp: the text of the messages, the map from group names to
  chat ids with its update from the bot API, and the distribution of messages over the senders.
\<close>

section \<open>Message texts\<close>

text \<open>\<open>boost::replace_all(payload, " ", "%20")\<close>.\<close>

fun replace_spaces :: "string \<Rightarrow> string" where
  "replace_spaces [] = []"
| "replace_spaces (c # cs) = (if c = CHR '' '' then ''%20'' @ replace_spaces cs else c # replace_spaces cs)"

definition field_line :: "string \<Rightarrow> string \<Rightarrow> string" where
  "field_line label value = label @ value @ ''%0A''"

definition prepare_telegram_payload_order :: "ws_order_info_t \<Rightarrow> string" where
  "prepare_telegram_payload_order order = replace_spaces
     (''Exchange: Binance%0A''
      @ field_line ''OrderID: '' (o_order_id order)
      @ field_line ''Token: '' (o_instrument_id order)
      @ field_line ''Price: '' (o_order_price order)
      @ field_line ''Qty: '' (o_quantity_purchased order)
      @ field_line ''LastFilled: '' (o_last_filled_quantity order)
      @ field_line ''Side: '' (o_order_side order)
      @ field_line ''Type: '' (o_order_type order)
      @ (if o_commission_asset order \<noteq> []
         then ''Fee: '' @ o_commission_amount order @ '' ( '' @ o_commission_asset order @ '' )%0A'' else [])
      @ field_line ''ExeType: '' (o_execution_type order)
      @ field_line ''State: '' (o_order_status order)
      @ field_line ''CreatedTime: '' (o_created_time order)
      @ field_line ''TransactionTime: '' (o_transaction_time order))"

definition prepare_telegram_payload_balance :: "ws_balance_info_t \<Rightarrow> string" where
  "prepare_telegram_payload_balance balance = replace_spaces
     (''Exchange: Binance%0A'' @ ''Type: BalanceUpdate%0A''
      @ field_line ''Token: '' (b_instrument_id balance)
      @ field_line ''Time: '' (b_clear_time balance)
      @ field_line ''Balance: '' (b_balance balance))"

definition prepare_telegram_payload_account :: "ws_account_update_t \<Rightarrow> string" where
  "prepare_telegram_payload_account account = replace_spaces
     (''Exchange: Binance%0A'' @ ''Type: AccountUpdate%0A''
      @ field_line ''Token: '' (a_instrument_id account)
      @ field_line ''Free: '' (a_free_amount account)
      @ field_line ''Locked: '' (a_locked_amount account)
      @ field_line ''EventTime: '' (a_event_time account)
      @ field_line ''LastUpdateTime: '' (a_last_account_update account))"

definition prepare_telegram_payload :: "user_stream_result_t \<Rightarrow> string" where
  "prepare_telegram_payload item = (case item of
     Order_item x \<Rightarrow> prepare_telegram_payload_order x
   | Balance_item x \<Rightarrow> prepare_telegram_payload_balance x
   | Account_item x \<Rightarrow> prepare_telegram_payload_account x)"

section \<open>Chat ids\<close>

text \<open>\<open>chat_ids[chat_title].telegram_chat_id = chat_id\<close>.\<close>

definition set_chat_id :: "string \<Rightarrow> string \<Rightarrow> tg_ccached_map_t \<Rightarrow> tg_ccached_map_t" where
  "set_chat_id chat_title chat_id m = map_set chat_title
     (case map_of m chat_title of
        None \<Rightarrow> \<lparr>database_id = 0, telegram_chat_id = chat_id\<rparr>
      | Some info \<Rightarrow> info\<lparr>telegram_chat_id := chat_id\<rparr>) m"

text \<open>The chat of one update, \<open>None\<close> where the loop continues with the next.\<close>

definition chat_of_update :: "'f double_ops \<Rightarrow> 'f json \<Rightarrow> (string \<times> string) option res" where
  "chat_of_update d json_message =
     rbind (get_object json_message) (\<lambda>message_item.
       case map_of message_item ''message'' of
         None \<Rightarrow> ok None
       | Some message \<Rightarrow> rbind (get_object message) (\<lambda>message_object.
           case map_of message_object ''chat'' of
             None \<Rightarrow> ok None
           | Some chat \<Rightarrow>
               rbind (get_object chat) (\<lambda>chat_object.
               rbind (get_value_integer d chat_object ''id'') (\<lambda>i.
               rbind (get_value_string chat_object ''type'') (\<lambda>chat_type.
               rbind (if chat_type = ''group'' then get_value_string chat_object ''title''
                      else if chat_type = ''private'' then get_value_string chat_object ''username''
                      else ok []) (\<lambda>chat_title.
               ok (Some (chat_title, to_string_int64 i))))))))"

text \<open>The loop over the updates: an exception leaves it with the entries made so far.\<close>

fun add_chats :: "'f double_ops \<Rightarrow> 'f json list \<Rightarrow> tg_ccached_map_t \<Rightarrow> tg_ccached_map_t" where
  "add_chats d [] chat_ids = chat_ids"
| "add_chats d (j # js) chat_ids =
     (case chat_of_update d j of
        Inl e \<Rightarrow> chat_ids
      | Inr None \<Rightarrow> add_chats d js chat_ids
      | Inr (Some (chat_title, chat_id)) \<Rightarrow> add_chats d js (set_chat_id chat_title chat_id chat_ids))"

definition updates_of_response :: "(string \<Rightarrow> 'f json option) \<Rightarrow> string \<Rightarrow> 'f json list res" where
  "updates_of_response parse response =
     rbind (parse_json parse response) (\<lambda>j.
     rbind (get_object j) (\<lambda>json_object.
     rbind (obj_at json_object ''ok'') (\<lambda>okay.
     rbind (get_boolean okay) (\<lambda>is_ok.
       if \<not> is_ok then ok []
       else rbind (obj_at json_object ''result'') get_array))))"

definition on_tg_update_completion ::
  "(string \<Rightarrow> 'f json option) \<Rightarrow> 'f double_ops \<Rightarrow> string \<Rightarrow> string \<Rightarrow> tg_ccached_map_t \<Rightarrow> tg_ccached_map_t" where
  "on_tg_update_completion parse d response error_msg chat_ids =
     (if error_msg \<noteq> [] then chat_ids
      else case updates_of_response parse response of
        Inl _ \<Rightarrow> chat_ids | Inr result_list \<Rightarrow> add_chats d result_list chat_ids)"

text \<open>
  \<open>tg_get_new_updates\<close> runs a \<open>chat_update_t\<close> on an \<open>io_context\<close> of its own until nothing is in
  flight; \<open>net\<close> gives the completions of that run (see the theorem on its single callback).
\<close>

record 'f tg_env =
  t_parse :: "string \<Rightarrow> 'f json option"
  t_doubles :: "'f double_ops"
  t_token :: string

definition update_callbacks :: "string \<Rightarrow> cu_event list \<Rightarrow> (string \<times> string) list" where
  "update_callbacks token net =
     (case cu_exec token net cu_launch of None \<Rightarrow> [] | Some c \<Rightarrow> callbacks (outs c))"

definition tg_get_new_updates ::
  "'f tg_env \<Rightarrow> 'db otl \<Rightarrow> cu_event list \<Rightarrow> tg_ccached_map_t \<times> 'db \<Rightarrow> tg_ccached_map_t \<times> 'db" where
  "tg_get_new_updates env otl net =
     fold (\<lambda>(response, error_msg) (chat_ids, db).
       let chat_ids' = on_tg_update_completion (t_parse env) (t_doubles env) response error_msg chat_ids
       in (chat_ids', insert_update_cached_ids otl chat_ids' db)) (update_callbacks (t_token env) net)"

section \<open>Sending\<close>

text \<open>\<open>chat_known\<close> is the branch of \<open>send_telegram_message\<close> after the chat was found.\<close>

definition give_payload :: "'f tg_env \<Rightarrow> tg_payload_t \<Rightarrow> tg_conf \<Rightarrow> tg_conf" where
  "give_payload env payload c = happen tg_op_of (tg_handle (t_token env)) (Tg_add_payload payload) c"

definition chat_known :: "'f tg_env \<Rightarrow> tg_payload_t \<Rightarrow> tg_conf list \<Rightarrow> tg_conf list" where
  "chat_known env payload message_senders =
     (case find_index (\<lambda>c. available_with_less_tasks (obj c)) message_senders of
        Some i \<Rightarrow> message_senders[i := give_payload env payload (message_senders ! i)]
      | None \<Rightarrow>
          (if 3 < length message_senders
           then filter (\<lambda>c. \<not> completed_operation (obj c)) message_senders else message_senders)
          @ [tg_launch payload])"

record 'db saver =
  message_senders :: "tg_conf list"
  chats_id_map :: tg_ccached_map_t
  account_table_map :: "string \<rightharpoonup> string"
  saver_db :: 'db

definition send_telegram_message ::
  "'f tg_env \<Rightarrow> 'db otl \<Rightarrow> cu_event list \<Rightarrow> string \<Rightarrow> string \<Rightarrow> 'db saver \<Rightarrow> 'db saver" where
  "send_telegram_message env otl net text tg_name s =
     (case map_of (chats_id_map s) tg_name of
        Some chat \<Rightarrow> s\<lparr>message_senders := chat_known env
          \<lparr>p_text = text, p_chat_id = telegram_chat_id chat\<rparr> (message_senders s)\<rparr>
      | None \<Rightarrow>
          (case tg_get_new_updates env otl net (chats_id_map s, saver_db s) of
             (chat_ids, db) \<Rightarrow>
               let s' = s\<lparr>chats_id_map := chat_ids, saver_db := db\<rparr> in
               (case map_of chat_ids tg_name of
                  None \<Rightarrow> s'
                | Some chat \<Rightarrow> s'\<lparr>message_senders := chat_known env
                    \<lparr>p_text = text, p_chat_id = telegram_chat_id chat\<rparr> (message_senders s')\<rparr>)))"

section \<open>The saver thread\<close>

text \<open>
  One iteration of \<open>persistent_orders_saver\<close> (background_threads.cpp): the message first, then the
  tables of an account that is new, then the row.
\<close>

definition save_item :: "'db otl \<Rightarrow> user_stream_result_t \<Rightarrow> 'db saver \<Rightarrow> 'db saver" where
  "save_item otl item s =
     (let account = item_account item;
          table_alias = (case account_table_map s account of Some a \<Rightarrow> a | None \<Rightarrow> []);
          fresh = (table_alias = []);
          table_alias' = (if fresh then get_alphanum_tablename account else table_alias);
          db1 = (if fresh then create_balance_table otl (table_alias' @ ''_balance'')
                   (create_order_table otl (table_alias' @ ''_orders'') (saver_db s)) else saver_db s);
          db2 = (case item of
                   Order_item x \<Rightarrow> add_new_order otl (table_alias' @ ''_orders'') x db1
                 | Balance_item x \<Rightarrow> add_new_balance otl (table_alias' @ ''_balance'') x db1
                 | Account_item x \<Rightarrow> db1)
      in s\<lparr>account_table_map := (account_table_map s)(account \<mapsto> table_alias'), saver_db := db2\<rparr>)"

definition saver_step :: "'f tg_env \<Rightarrow> 'db otl \<Rightarrow> cu_event list \<Rightarrow> user_stream_result_t \<Rightarrow> 'db saver \<Rightarrow> 'db saver" where
  "saver_step env otl net item s =
     save_item otl item
       (send_telegram_message env otl net (prepare_telegram_payload item) (item_group item) s)"

text \<open>The start of the thread and its loop on the stream container.\<close>

definition saver_init :: "'f tg_env \<Rightarrow> 'db otl \<Rightarrow> cu_event list \<Rightarrow> 'db \<Rightarrow> 'db saver" where
  "saver_init env otl net db =
     (case tg_get_new_updates env otl net (get_tg_cached_ids otl db) of
        (chat_ids, db') \<Rightarrow> \<lparr>message_senders = [], chats_id_map = chat_ids,
          account_table_map = Map.empty, saver_db = db'\<rparr>)"

section \<open>Lemmas on messages and chats\<close>

definition no_percent :: "string \<Rightarrow> bool" where
  "no_percent s \<longleftrightarrow> CHR ''%'' \<notin> set s"

lemma replace_spaces_append [simp]: "replace_spaces (s @ t) = replace_spaces s @ replace_spaces t"
  by (induction s) auto

lemma replace_spaces_none: "CHR '' '' \<notin> set (replace_spaces s)"
  by (induction s) auto

lemma decoded_chars: "char_of (32 :: nat) = CHR '' ''" "char_of (10 :: nat) = CHR 0x0A"
  by code_simp+

lemma decode_spaces:
  "no_percent s \<Longrightarrow> decode_url (replace_spaces s @ t) = rbind (decode_url t) (\<lambda>r. ok (s @ r))"
proof (induction s)
  case (Cons c s)
  then have "c \<noteq> CHR ''%''" "no_percent s" by (auto simp: no_percent_def)
  with Cons.IH show ?case
    by (cases "decode_url t") (auto simp: hex_digit_def Let_def decoded_chars)
qed (cases "decode_url t"; simp)

definition newline :: string where
  "newline = [CHR 0x0A]"

lemma decode_newline: "decode_url (''%0A'' @ t) = rbind (decode_url t) (\<lambda>r. ok (newline @ r))"
  by (simp add: hex_digit_def Let_def newline_def decoded_chars)

text \<open>A line of a message, and the last one.\<close>

lemma decode_line:
  assumes "no_percent (label @ value)"
  shows "decode_url (replace_spaces (field_line label value) @ t)
      = rbind (decode_url t) (\<lambda>r. ok (label @ value @ newline @ r))"
    and "decode_url (replace_spaces (field_line label value)) = ok (label @ value @ newline)"
proof -
  have line: "decode_url (replace_spaces (field_line label value) @ u)
      = rbind (decode_url u) (\<lambda>r. ok (label @ value @ newline @ r))" for u
    using decode_spaces [OF assms, of "''%0A'' @ u"] decode_newline [of u]
    by (cases "decode_url u") (simp_all add: field_line_def)
  from line show "decode_url (replace_spaces (field_line label value) @ t)
      = rbind (decode_url t) (\<lambda>r. ok (label @ value @ newline @ r))" .
  from line [of "[]"] show "decode_url (replace_spaces (field_line label value)) = ok (label @ value @ newline)"
    by simp
qed

text \<open>The message that the recipient reads.\<close>

definition order_text :: "ws_order_info_t \<Rightarrow> string" where
  "order_text order = ''Exchange: Binance'' @ newline
      @ ''OrderID: '' @ o_order_id order @ newline
      @ ''Token: '' @ o_instrument_id order @ newline
      @ ''Price: '' @ o_order_price order @ newline
      @ ''Qty: '' @ o_quantity_purchased order @ newline
      @ ''LastFilled: '' @ o_last_filled_quantity order @ newline
      @ ''Side: '' @ o_order_side order @ newline
      @ ''Type: '' @ o_order_type order @ newline
      @ (if o_commission_asset order \<noteq> []
         then ''Fee: '' @ o_commission_amount order @ '' ( '' @ o_commission_asset order @ '' )'' @ newline
         else [])
      @ ''ExeType: '' @ o_execution_type order @ newline
      @ ''State: '' @ o_order_status order @ newline
      @ ''CreatedTime: '' @ o_created_time order @ newline
      @ ''TransactionTime: '' @ o_transaction_time order @ newline"

lemma first_line: "''Exchange: Binance%0A'' = field_line ''Exchange: '' ''Binance''"
  by (simp add: field_line_def)

lemma fee_line: "''Fee: '' @ amount @ '' ( '' @ asset @ '' )%0A''
    = field_line ''Fee: '' (amount @ '' ( '' @ asset @ '' )'')"
  by (simp add: field_line_def)

lemma no_percent_simps [simp]:
  "no_percent []" "no_percent (c # s) \<longleftrightarrow> c \<noteq> CHR ''%'' \<and> no_percent s"
  "no_percent (s @ t) \<longleftrightarrow> no_percent s \<and> no_percent t"
  by (auto simp: no_percent_def)

lemma map_of_map_set: "map_of (map_set k v m) = (map_of m)(k \<mapsto> v)"
  by (induction m) (auto simp: fun_eq_iff)

lemma keys_map_set: "set (map fst (map_set k v m)) = insert k (set (map fst m))"
  by (induction k v m rule: map_set.induct) (simp_all add: insert_commute)

text \<open>The keys stay in the order of \<open>std::map\<close>.\<close>

lemma sorted_map_set:
  "sorted_wrt (<) (map fst m) \<Longrightarrow> sorted_wrt (<) (map fst (map_set k v m))"
proof (induction m)
  case (Cons a m)
  obtain k' v' where a: "a = (k', v')" by (cases a)
  with Cons have m: "sorted_wrt (<) (map fst m)" "\<forall>x\<in>set (map fst m). k' < x" by auto
  consider "k = k'" | "k < k'" | "k' < k" by (meson not_less_iff_gr_or_eq)
  then show ?case
  proof cases
    case 3
    with a Cons.IH [OF m(1)] m(2) keys_map_set [of k v m] show ?thesis by auto
  qed (use a m in auto)
qed simp

section \<open>Lemmas on senders\<close>

definition queued :: "tg_conf list \<Rightarrow> tg_payload_t list" where
  "queued cs = concat (map (\<lambda>c. s_payloads (obj c)) cs)"

lemma give_payload_obj: "obj (give_payload env p c) = (obj c)\<lparr>s_payloads := s_payloads (obj c) @ [p]\<rparr>"
  by (simp add: give_payload_def add_payload_def async_defs)

lemma queued_give:
  "i < length cs \<Longrightarrow> mset (queued (cs[i := give_payload env p (cs ! i)])) = mset (queued cs) + {#p#}"
  by (induction cs arbitrary: i)
    (auto simp: queued_def give_payload_obj split: nat.split)

lemma queued_partition:
  "mset (queued cs) = mset (queued (filter P cs)) + mset (queued (filter (\<lambda>c. \<not> P c) cs))"
  by (induction cs) (auto simp: queued_def)

lemma launch_payloads: "s_payloads (obj (tg_launch p)) = [p]"
  by (simp add: tg_defs async_defs)

text \<open>The senders that are thrown away.\<close>

definition dropped :: "tg_conf list \<Rightarrow> tg_conf list" where
  "dropped cs = (if list_ex (\<lambda>c. available_with_less_tasks (obj c)) cs \<or> length cs \<le> 3 then []
     else filter (\<lambda>c. completed_operation (obj c)) cs)"

lemma chat_known_accepts:
  "mset (queued (chat_known env p cs)) + mset (queued (dropped cs)) = mset (queued cs) + {#p#}"
proof (cases "find_index (\<lambda>c. available_with_less_tasks (obj c)) cs")
  case None
  then have "\<not> list_ex (\<lambda>c. available_with_less_tasks (obj c)) cs"
    by (simp add: find_index_None list_ex_iff)
  with None queued_partition [of cs "\<lambda>c. completed_operation (obj c)"] show ?thesis
    by (simp add: chat_known_def dropped_def) (simp add: queued_def launch_payloads)
next
  case (Some i)
  from find_index_Some [OF Some] have i: "i < length cs" "available_with_less_tasks (obj (cs ! i))" by auto
  then have "list_ex (\<lambda>c. available_with_less_tasks (obj c)) cs" by (auto simp: list_ex_iff)
  with Some i queued_give [OF i(1)] show ?thesis by (simp add: chat_known_def dropped_def queued_def)
qed

lemma chat_known_bound:
  assumes "\<forall>c\<in>set cs. length (s_payloads (obj c)) \<le> 20"
  shows "\<forall>c\<in>set (chat_known env p cs). length (s_payloads (obj c)) \<le> 20"
proof (cases "find_index (\<lambda>c. available_with_less_tasks (obj c)) cs")
  case None
  with assms show ?thesis by (auto simp: chat_known_def launch_payloads)
next
  case (Some i)
  from find_index_Some [OF Some] have "length (s_payloads (obj (give_payload env p (cs ! i)))) \<le> 20"
    by (simp add: give_payload_obj available_with_less_tasks_def)
  with Some assms show ?thesis by (auto simp: chat_known_def dest!: set_update_subset_insert [THEN subsetD])
qed

section \<open>Lemmas on the saver\<close>

text \<open>
  A database that executes every statement, with the list of the statements executed so far. The
  rows among them are the insertions into any table but those of the hosts and of the chats.
\<close>

definition logs_all :: "'db otl \<Rightarrow> ('db \<Rightarrow> string list) \<Rightarrow> bool" where
  "logs_all otl stmts \<longleftrightarrow> (\<forall>stmt db. \<exists>db'. direct_exec otl stmt db = Some db' \<and> stmts db' = stmts db @ [stmt])"

definition inserted_table :: "string \<Rightarrow> string" where
  "inserted_table stmt = takeWhile (\<lambda>c. c \<noteq> CHR '' '' \<and> c \<noteq> CHR ''('') (drop 12 stmt)"

definition is_row :: "string \<Rightarrow> bool" where
  "is_row stmt \<longleftrightarrow> take 12 stmt = ''INSERT INTO '' \<and> inserted_table stmt \<notin> {''hosts'', ''`tg_id_cache`''}"

definition rows :: "('db \<Rightarrow> string list) \<Rightarrow> 'db \<Rightarrow> string list" where
  "rows stmts db = filter is_row (stmts db)"

fun row_of :: "user_stream_result_t \<Rightarrow> string list" where
  "row_of (Order_item x) =
     [add_new_order_sql (get_alphanum_tablename (o_for_aliased_account x) @ ''_orders'') x]"
| "row_of (Balance_item x) =
     [add_new_balance_sql (get_alphanum_tablename (b_for_aliased_account x) @ ''_balance'') x]"
| "row_of (Account_item x) = []"

lemma logged_rows:
  assumes "logs_all otl stmts"
  shows "rows stmts (exec_logged otl stmt db) = rows stmts db @ filter is_row [stmt]"
proof -
  from assms obtain db' where "direct_exec otl stmt db = Some db'" "stmts db' = stmts db @ [stmt]"
    unfolding logs_all_def by blast
  then show ?thesis by (simp add: exec_logged_def rows_def)
qed

lemma tablename_inserted:
  "takeWhile (\<lambda>c. c \<noteq> CHR '' '' \<and> c \<noteq> CHR ''('') (get_alphanum_tablename a @ CHR ''_'' # r)
     = get_alphanum_tablename a @ CHR ''_'' # takeWhile (\<lambda>c. c \<noteq> CHR '' '' \<and> c \<noteq> CHR ''('') r"
proof -
  have "c \<noteq> CHR '' '' \<and> c \<noteq> CHR ''(''" if "c \<in> set (get_alphanum_tablename a)" for c
    using tablename_chars [OF that] by (auto simp: char_simps)
  then show ?thesis by (simp add: takeWhile_append)
qed

lemma tablename_other:
  "get_alphanum_tablename a @ CHR ''_'' # r \<noteq> ''hosts''" "get_alphanum_tablename a @ CHR ''_'' # r \<noteq> ''`tg_id_cache`''"
proof -
  show "get_alphanum_tablename a @ CHR ''_'' # r \<noteq> ''hosts''"
    by (auto simp: append_eq_Cons_conv)
  have "CHR 0x60 \<notin> set (get_alphanum_tablename a)" using tablename_chars [of "CHR 0x60" a] by (auto simp: char_simps)
  then show "get_alphanum_tablename a @ CHR ''_'' # r \<noteq> ''`tg_id_cache`''"
    by (cases "get_alphanum_tablename a") auto
qed

lemma item_rows [simp]:
  "is_row (add_new_order_sql (get_alphanum_tablename a @ ''_orders'') x)"
  "is_row (add_new_balance_sql (get_alphanum_tablename a @ ''_balance'') y)"
  by (simp_all add: is_row_def inserted_table_def add_new_order_sql_def add_new_balance_sql_def
      tablename_inserted tablename_other)

lemma other_statements [simp]:
  "\<not> is_row (create_order_table_sql t)" "\<not> is_row (create_balance_table_sql t)"
  "\<not> is_row create_telegram_cache_table_sql" "\<not> is_row (cached_id_sql entry)"
  "\<not> is_row (add_new_host_sql h)"
  by (simp_all add: is_row_def inserted_table_def create_order_table_sql_def create_balance_table_sql_def
      create_telegram_cache_table_sql_def cached_id_sql_def add_new_host_sql_def split: prod.split)

definition tables_ok :: "'db saver \<Rightarrow> bool" where
  "tables_ok s \<longleftrightarrow> (\<forall>a t. account_table_map s a = Some t \<longrightarrow> t = get_alphanum_tablename a)"

lemma tables_ok_insert: "tables_ok s \<Longrightarrow>
    tables_ok (s\<lparr>account_table_map := (account_table_map s)(a \<mapsto> get_alphanum_tablename a), saver_db := db\<rparr>)"
  by (simp add: tables_ok_def)

lemma save_item_rows:
  assumes "logs_all otl stmts" "tables_ok s"
  shows "rows stmts (saver_db (save_item otl item s)) = rows stmts (saver_db s) @ row_of item
    \<and> tables_ok (save_item otl item s)"
proof -
  let ?a = "case account_table_map s (item_account item) of Some a \<Rightarrow> a | None \<Rightarrow> []"
  have a: "(if ?a = [] then get_alphanum_tablename (item_account item) else ?a)
      = get_alphanum_tablename (item_account item)"
    using assms(2) by (auto simp: tables_ok_def split: option.split)
  show ?thesis unfolding save_item_def Let_def a
    using assms(2)
    by (cases item) (simp_all add: add_new_order_def add_new_balance_def create_balance_table_def
        create_order_table_def logged_rows [OF assms(1)] tables_ok_insert item_account_def)
qed

text \<open>What concerns the chats stores no row.\<close>

lemma cached_ids_rows:
  "logs_all otl stmts \<Longrightarrow> rows stmts (insert_update_cached_ids otl m db) = rows stmts db"
  by (induction m arbitrary: db) (simp_all add: insert_update_cached_ids_def logged_rows)

lemma updates_rows:
  assumes "logs_all otl stmts"
  shows "rows stmts (snd (tg_get_new_updates env otl net p)) = rows stmts (snd p)"
proof -
  have "rows stmts (snd (fold (\<lambda>(response, error_msg) (chat_ids, db).
       let chat_ids' = on_tg_update_completion (t_parse env) (t_doubles env) response error_msg chat_ids
       in (chat_ids', insert_update_cached_ids otl chat_ids' db)) cbs p)) = rows stmts (snd p)" for cbs
    by (induction cbs arbitrary: p) (auto simp: Let_def cached_ids_rows [OF assms] split: prod.split)
  then show ?thesis unfolding tg_get_new_updates_def .
qed

lemma send_rows:
  assumes "logs_all otl stmts"
  shows "rows stmts (saver_db (send_telegram_message env otl net text g s)) = rows stmts (saver_db s)
    \<and> account_table_map (send_telegram_message env otl net text g s) = account_table_map s"
  using updates_rows [OF assms, of env net "(chats_id_map s, saver_db s)"]
  by (auto simp: send_telegram_message_def Let_def split: option.split prod.split)

lemma saver_step_rows:
  assumes "logs_all otl stmts" "tables_ok s"
  shows "rows stmts (saver_db (saver_step env otl net item s)) = rows stmts (saver_db s) @ row_of item
    \<and> tables_ok (saver_step env otl net item s)"
proof -
  let ?s = "send_telegram_message env otl net (prepare_telegram_payload item) (item_group item) s"
  note sent = send_rows [OF assms(1), of env net "prepare_telegram_payload item" "item_group item" s]
  with assms(2) have "tables_ok ?s" by (simp add: tables_ok_def)
  from save_item_rows [OF assms(1) this, of item] sent show ?thesis by (simp add: saver_step_def)
qed

lemma saver_rows:
  assumes "logs_all otl stmts" "tables_ok s"
  shows "rows stmts (saver_db (fold (saver_step env otl net) items s))
      = rows stmts (saver_db s) @ concat (map row_of items)"
  using assms(2)
proof (induction items arbitrary: s)
  case (Cons i items)
  note step = saver_step_rows [OF assms(1) Cons.prems, of env net i]
  with Cons.IH [of "saver_step env otl net i s"] show ?case by simp
qed simp

lemma saver_init_rows:
  assumes "logs_all otl stmts"
  shows "rows stmts (saver_db (saver_init env otl net db)) = rows stmts db \<and> tables_ok (saver_init env otl net db)"
  using updates_rows [OF assms, of env net "get_tg_cached_ids otl db"] logged_rows [OF assms]
  by (auto simp: saver_init_def get_tg_cached_ids_def create_telegram_cache_table_def Let_def tables_ok_def
      split: prod.split)

definition recording_otl :: "string list otl" where
  "recording_otl = \<lparr>direct_exec = (\<lambda>stmt db. Some (db @ [stmt])), select_hosts = (\<lambda>_. []),
     select_chats = (\<lambda>_. []), rlogon = (\<lambda>_ db. Some db), logoff = (\<lambda>db. db)\<rparr>"

lemma recording_logs: "logs_all recording_otl (\<lambda>db. db)"
  by (simp add: logs_all_def recording_otl_def)

section \<open>Properties\<close>

definition order_message_fields :: "ws_order_info_t \<Rightarrow> string list" where
  "order_message_fields x = [o_order_id x, o_instrument_id x, o_order_price x, o_quantity_purchased x,
     o_last_filled_quantity x, o_order_side x, o_order_type x, o_commission_amount x, o_commission_asset x,
     o_execution_type x, o_order_status x, o_created_time x, o_transaction_time x]"

text \<open>
  C28. The message text goes into the request target without spaces, and percent-decoding it gives
  the lines of the order with real spaces and newlines, whenever no field contains a percent sign.
\<close>

theorem order_payload_decodes:
  assumes "list_all no_percent (order_message_fields order)"
  shows "decode_url (prepare_telegram_payload_order order) = ok (order_text order)
    \<and> CHR '' '' \<notin> set (prepare_telegram_payload_order order)"
proof
  show "CHR '' '' \<notin> set (prepare_telegram_payload_order order)"
    unfolding prepare_telegram_payload_order_def by (rule replace_spaces_none)
  show "decode_url (prepare_telegram_payload_order order) = ok (order_text order)"
    using assms unfolding prepare_telegram_payload_order_def first_line fee_line order_text_def
    by (cases "o_commission_asset order = []")
      (simp_all add: decode_line order_message_fields_def)
qed

theorem order_payload_decodes_witness:
  "decode_url (prepare_telegram_payload_order example_order) = ok (order_text example_order)"
  using order_payload_decodes [of example_order] by (simp add: order_message_fields_def example_order_def)

text \<open>
  \<open>send_telegram_message\<close> hands a message whose chat is known to exactly one sender: the messages
  queued before and the new one are, each once, those queued afterwards and those still queued in
  the completed senders it throws away; and no queue ever holds more than twenty messages.
\<close>

theorem message_accepted_once:
  assumes "map_of (chats_id_map s) tg_name = Some chat"
    and "\<forall>c\<in>set (message_senders s). length (s_payloads (obj c)) \<le> 20"
  shows "mset (queued (message_senders (send_telegram_message env otl net text tg_name s)))
      + mset (queued (dropped (message_senders s)))
      = mset (queued (message_senders s)) + {# \<lparr>p_text = text, p_chat_id = telegram_chat_id chat\<rparr> #}
    \<and> (\<forall>c\<in>set (message_senders (send_telegram_message env otl net text tg_name s)).
        length (s_payloads (obj c)) \<le> 20)"
proof -
  let ?p = "\<lparr>p_text = text, p_chat_id = telegram_chat_id chat\<rparr>"
  from chat_known_accepts [of env ?p "message_senders s"] chat_known_bound [OF assms(2), of env ?p] assms(1)
  show ?thesis by (simp add: send_telegram_message_def)
qed

definition token_env :: "int tg_env" where
  "token_env = \<lparr>t_parse = (\<lambda>_. None), t_doubles = whole_doubles, t_token = ''T''\<rparr>"

definition known_saver :: "string list saver" where
  "known_saver = \<lparr>message_senders = [tg_launch \<lparr>p_text = ''x'', p_chat_id = ''1''\<rparr>],
     chats_id_map = [(''g'', \<lparr>database_id = 1, telegram_chat_id = ''42''\<rparr>)],
     account_table_map = Map.empty, saver_db = []\<rparr>"

theorem message_accepted_once_witness:
  "mset (queued (message_senders (send_telegram_message token_env recording_otl [] ''hi'' ''g'' known_saver)))
     = {# \<lparr>p_text = ''x'', p_chat_id = ''1''\<rparr>, \<lparr>p_text = ''hi'', p_chat_id = ''42''\<rparr> #}"
proof -
  have "available_with_less_tasks (obj (tg_launch \<lparr>p_text = ''x'', p_chat_id = ''1''\<rparr>))"
    by (simp add: tg_defs async_defs available_with_less_tasks_def)
  then have "dropped (message_senders known_saver) = []" by (simp add: dropped_def known_saver_def)
  moreover have "map_of (chats_id_map known_saver) ''g'' = Some \<lparr>database_id = 1, telegram_chat_id = ''42''\<rparr>"
    "\<forall>c\<in>set (message_senders known_saver). length (s_payloads (obj c)) \<le> 20"
    "queued (message_senders known_saver) = [\<lparr>p_text = ''x'', p_chat_id = ''1''\<rparr>]"
    by (simp_all add: known_saver_def queued_def launch_payloads)
  note message_accepted_once [OF this(1,2), of token_env recording_otl "[]" "''hi''"] this(3)
  ultimately show ?thesis by (simp add: queued_def)
qed

text \<open>
  Messages queued in a sender whose connection failed are lost: a failed name resolution marks
  the sender completed with its queue unsent, and once more than three senders exist it is thrown
  away with its messages.
\<close>

theorem failed_sender_loses_messages:
  "\<exists>c. tg_exec token [Tg_add_payload q, Tg_resolved (Some err)] (tg_launch p) = Some c
     \<and> queued (dropped (replicate 4 c)) = concat (replicate 4 [p, q])
     \<and> queued (chat_known env r (replicate 4 c)) = [r]"
proof -
  obtain c where c: "tg_exec token [Tg_add_payload q, Tg_resolved (Some err)] (tg_launch p) = Some c"
    "s_payloads (obj c) = [p, q]" "completed_operation (obj c)" "\<not> available_with_less_tasks (obj c)"
    by (simp add: tg_defs async_defs completed_operation_def available_with_less_tasks_def)
  then show ?thesis
    by (intro exI [of _ c])
      (simp add: dropped_def chat_known_def queued_def launch_payloads numeral_eq_Suc)
qed

text \<open>
  Updating the cached chats keeps the map in key order; afterwards a title has the id of the
  last update that names it, with its database id unchanged, and all other titles are as before.
\<close>

theorem set_chat_id_spec:
  assumes "sorted_wrt (<) (map fst m)"
  shows "sorted_wrt (<) (map fst (set_chat_id title i m))
    \<and> map_option telegram_chat_id (map_of (set_chat_id title i m) title) = Some i
    \<and> map_option database_id (map_of (set_chat_id title i m) title)
      = Some (case map_of m title of None \<Rightarrow> 0 | Some info \<Rightarrow> database_id info)
    \<and> (map_of (set_chat_id title i m))(title := None) = (map_of m)(title := None)"
  using sorted_map_set [OF assms]
  by (simp add: set_chat_id_def map_of_map_set split: option.split)

theorem set_chat_id_spec_witness:
  "map_option telegram_chat_id (map_of (set_chat_id ''b'' ''7''
     [(''a'', \<lparr>database_id = 1, telegram_chat_id = ''5''\<rparr>)]) ''b'') = Some ''7''"
  using set_chat_id_spec [of "[(''a'', \<lparr>database_id = 1, telegram_chat_id = ''5''\<rparr>)]" "''b''" "''7''"]
  by simp

text \<open>
  A supergroup or channel has no name in the map: the update of a chat of any other type than
  group and private is stored under the empty title.
\<close>

theorem other_chat_types_unnamed:
  assumes "chat_type \<noteq> ''group''" "chat_type \<noteq> ''private''"
  shows "chat_of_update d (J_object [(''message'', J_object [(''chat'', J_object
      [(''id'', J_integer i), (''title'', J_string title), (''type'', J_string chat_type)])])])
    = ok (Some ([], to_string_int64 i))"
  using assms by (simp add: chat_of_update_def json_get_defs get_value_integer_def get_integer_def)

theorem other_chat_types_unnamed_witness:
  "chat_of_update whole_doubles (J_object [(''message'', J_object [(''chat'', J_object
      [(''id'', J_integer 5), (''title'', J_string ''traders''), (''type'', J_string ''supergroup'')])])])
    = ok (Some ([], to_string_int64 5))"
  by (rule other_chat_types_unnamed) simp_all

text \<open>
  Over any database that executes every statement, the saver inserts one row per order and balance,
  in the order of the items, into the tables named after the account, and none for account updates,
  whatever chats it stores meanwhile.
\<close>

theorem saver_stores_rows:
  assumes "logs_all otl stmts" "account_table_map s = Map.empty"
  shows "rows stmts (saver_db (fold (saver_step env otl net) items s))
    = rows stmts (saver_db s) @ concat (map row_of items)"
  by (rule saver_rows [OF assms(1)]) (simp add: assms(2) tables_ok_def)

theorem saver_stores_rows_witness:
  "rows (\<lambda>db. db) (saver_db (fold (saver_step token_env recording_otl []) [Order_item example_order] known_saver))
     = [add_new_order_sql ''main_orders'' example_order]"
proof -
  have "get_alphanum_tablename ''main'' = ''main''" by code_simp
  then show ?thesis
    using saver_stores_rows [OF recording_logs, of known_saver token_env "[]" "[Order_item example_order]"]
    by (simp add: known_saver_def example_order_def rows_def)
qed

end
