(* ===== verification/Sender_Race.thy ===== *)
theory Sender_Race
  imports Telegram "HOL-Library.While_Combinator"
begin

text \<open>
  The last part of \<open>send_telegram_message\<close> at the granularity of its calls of the senders. The saver
  thread tests the senders one after another and gives the message to the first that is available,
  while the handlers of the senders run on other threads: they may run between a test and the call
  that relies on it. On its own the saver computes \<open>chat_known\<close>; interleaved with the handlers the
  message is still accepted by exactly one sender, but possibly by one that has completed meanwhile.
\<close>

section \<open>The calls of the saver thread\<close>

text \<open>
  \<open>Testing i\<close>: the loop is about to call \<open>available_with_less_tasks\<close> of the sender at position \<open>i\<close>;
  \<open>Adding i\<close>: this sender was available, \<open>add_payload\<close> is next; \<open>Sweeping i\<close>: \<open>remove_if\<close> is about to
  call \<open>completed_operation\<close> of the sender at position \<open>i\<close>; \<open>Launching\<close>: a new sender is next.
\<close>

datatype saver_phase = Testing nat | Adding nat | Sweeping nat | Launching | Message_given

record race =
  phase :: saver_phase
  senders :: "tg_conf list"
  discarded :: "tg_conf list"

definition saver_move :: "'f tg_env \<Rightarrow> tg_payload_t \<Rightarrow> race \<Rightarrow> race" where
  "saver_move env payload s = (case phase s of
     Testing i \<Rightarrow>
       (if i < length (senders s)
        then s\<lparr>phase := if available_with_less_tasks (obj (senders s ! i)) then Adding i else Testing (Suc i)\<rparr>
        else s\<lparr>phase := if 3 < length (senders s) then Sweeping 0 else Launching\<rparr>)
   | Adding i \<Rightarrow> s\<lparr>phase := Message_given, senders := (senders s)[i := give_payload env payload (senders s ! i)]\<rparr>
   | Sweeping i \<Rightarrow>
       (if i < length (senders s)
        then if completed_operation (obj (senders s ! i))
             then s\<lparr>senders := erase_at i (senders s), discarded := discarded s @ [senders s ! i]\<rparr>
             else s\<lparr>phase := Sweeping (Suc i)\<rparr>
        else s\<lparr>phase := Launching\<rparr>)
   | Launching \<Rightarrow> s\<lparr>phase := Message_given, senders := senders s @ [tg_launch payload]\<rparr>
   | Message_given \<Rightarrow> s)"

definition race_start :: "tg_conf list \<Rightarrow> race" where
  "race_start cs = \<lparr>phase = Testing 0, senders = cs, discarded = []\<rparr>"

section \<open>Interleaving\<close>

datatype race_label = Saver_moves | Sender_handles nat tg_event

definition sender_move :: "'f tg_env \<Rightarrow> nat \<Rightarrow> tg_event \<Rightarrow> race \<Rightarrow> race" where
  "sender_move env i ev s =
     s\<lparr>senders := (senders s)[i := happen tg_op_of (tg_handle (t_token env)) ev (senders s ! i)]\<rparr>"

text \<open>The paths from a state, with the last label first. An error that escapes ends the program.\<close>

inductive race_path :: "'f tg_env \<Rightarrow> tg_payload_t \<Rightarrow> race \<Rightarrow> race_label list \<Rightarrow> race \<Rightarrow> bool"
  for env payload s0 where
  path_start: "race_path env payload s0 [] s0"
| path_saver: "race_path env payload s0 ls s \<Longrightarrow> list_all (\<lambda>c. fault c = None) (senders s) \<Longrightarrow>
     phase s \<noteq> Message_given \<Longrightarrow> race_path env payload s0 (Saver_moves # ls) (saver_move env payload s)"
| path_sender: "race_path env payload s0 ls s \<Longrightarrow> list_all (\<lambda>c. fault c = None) (senders s) \<Longrightarrow>
     i < length (senders s) \<Longrightarrow> tg_op_of ev \<noteq> None \<Longrightarrow> can_happen tg_op_of (\<lambda>_ _. True) ev (senders s ! i) \<Longrightarrow>
     race_path env payload s0 (Sender_handles i ev # ls) (sender_move env i ev s)"

inductive_simps path_simps:
  "race_path env payload s0 [] s"
  "race_path env payload s0 (Saver_moves # ls) s"
  "race_path env payload s0 (Sender_handles i ev # ls) s"

section \<open>The saver on its own\<close>

definition saver_alone :: "'f tg_env \<Rightarrow> tg_payload_t \<Rightarrow> race \<Rightarrow> race option" where
  "saver_alone env payload = while_option (\<lambda>s. phase s \<noteq> Message_given) (saver_move env payload)"

lemma alone_moves:
  "phase s \<noteq> Message_given \<Longrightarrow> saver_alone env payload s = saver_alone env payload (saver_move env payload s)"
  "phase s = Message_given \<Longrightarrow> saver_alone env payload s = Some s"
  unfolding saver_alone_def by (subst while_option_unfold, simp)+

lemma alone_launches:
  "saver_alone env payload \<lparr>phase = Launching, senders = cs, discarded = ds\<rparr>
     = Some \<lparr>phase = Message_given, senders = cs @ [tg_launch payload], discarded = ds\<rparr>"
  by (simp add: alone_moves saver_move_def)

lemma alone_sweeps:
  "saver_alone env payload \<lparr>phase = Sweeping (length xs), senders = xs @ ys, discarded = ds\<rparr>
     = Some \<lparr>phase = Message_given,
         senders = xs @ filter (\<lambda>c. \<not> completed_operation (obj c)) ys @ [tg_launch payload],
         discarded = ds @ filter (\<lambda>c. completed_operation (obj c)) ys\<rparr>"
proof (induction ys arbitrary: xs ds)
  case Nil
  then show ?case by (simp add: alone_moves saver_move_def alone_launches)
next
  case (Cons y ys)
  show ?case
  proof (cases "completed_operation (obj y)")
    case True
    with Cons.IH [of xs "ds @ [y]"] show ?thesis by (simp add: alone_moves saver_move_def erase_at_def)
  next
    case False
    with Cons.IH [of "xs @ [y]" ds] show ?thesis by (simp add: alone_moves saver_move_def)
  qed
qed

lemma alone_tests:
  "saver_alone env payload \<lparr>phase = Testing (length xs), senders = xs @ ys, discarded = []\<rparr> =
     (case find_index (\<lambda>c. available_with_less_tasks (obj c)) ys of
        Some j \<Rightarrow> Some \<lparr>phase = Message_given, senders = xs @ ys[j := give_payload env payload (ys ! j)], discarded = []\<rparr>
      | None \<Rightarrow> saver_alone env payload \<lparr>phase = if 3 < length (xs @ ys) then Sweeping 0 else Launching,
          senders = xs @ ys, discarded = []\<rparr>)"
proof (induction ys arbitrary: xs)
  case Nil
  then show ?case by (simp add: alone_moves saver_move_def)
next
  case (Cons y ys)
  show ?case
  proof (cases "available_with_less_tasks (obj y)")
    case True
    then show ?thesis by (simp add: alone_moves saver_move_def)
  next
    case False
    with Cons.IH [of "xs @ [y]"] show ?thesis
      by (simp add: alone_moves(1) [of "\<lparr>phase = Testing (length xs), senders = xs @ y # ys, discarded = []\<rparr>"]
          saver_move_def split: option.split)
  qed
qed

text \<open>Without interleaving, the calls are those of \<open>chat_known\<close>.\<close>

lemma alone_known:
  "saver_alone env payload (race_start cs)
     = Some \<lparr>phase = Message_given, senders = chat_known env payload cs, discarded = dropped cs\<rparr>"
proof (cases "find_index (\<lambda>c. available_with_less_tasks (obj c)) cs")
  case None
  then have "\<not> list_ex (\<lambda>c. available_with_less_tasks (obj c)) cs" by (simp add: find_index_None list_ex_iff)
  with None alone_tests [of env payload "[]" cs] alone_sweeps [of env payload "[]" cs "[]"]
    alone_launches [of env payload cs "[]"] show ?thesis
    by (simp add: race_start_def chat_known_def dropped_def)
next
  case (Some i)
  from find_index_Some [OF Some] have "list_ex (\<lambda>c. available_with_less_tasks (obj c)) cs"
    by (auto simp: list_ex_iff)
  with Some alone_tests [of env payload "[]" cs] show ?thesis
    by (simp add: race_start_def chat_known_def dropped_def)
qed

section \<open>Any interleaving\<close>

text \<open>The messages that a sender has accepted, as requests: those on the wire and those queued.\<close>

definition accepted :: "string \<Rightarrow> tg_conf \<Rightarrow> http_request list" where
  "accepted token c = sent (outs c) @ map (tg_request token) (s_payloads (obj c))"

definition all_accepted :: "string \<Rightarrow> tg_conf list \<Rightarrow> http_request multiset" where
  "all_accepted token cs = (\<Sum>c\<in>#mset cs. mset (accepted token c))"

lemma all_accepted_simps [simp]:
  "all_accepted token [] = {#}"
  "all_accepted token (c # cs) = mset (accepted token c) + all_accepted token cs"
  "all_accepted token (cs @ ds) = all_accepted token cs + all_accepted token ds"
  by (simp_all add: all_accepted_def)

lemma all_accepted_update:
  "i < length cs \<Longrightarrow> mset (accepted token c) = mset (accepted token (cs ! i)) + m \<Longrightarrow>
   all_accepted token (cs[i := c]) = all_accepted token cs + m"
  by (induction cs arbitrary: i) (auto split: nat.split)

lemma all_accepted_erase:
  "i < length cs \<Longrightarrow> all_accepted token cs = all_accepted token (erase_at i cs) + mset (accepted token (cs ! i))"
  unfolding erase_at_def
  by (subst id_take_nth_drop [of i cs]) (simp_all add: ac_simps min_def)

lemma handler_accepted:
  assumes "tg_sound token c" "can_happen tg_op_of (\<lambda>_ _. True) ev c" "tg_op_of ev \<noteq> None"
  shows "accepted token (happen tg_op_of (tg_handle token) ev c) = accepted token c"
    and "length (s_payloads (obj (happen tg_op_of (tg_handle token) ev c))) \<le> length (s_payloads (obj c))"
proof -
  from sender_moves [OF assms] obtain xs where
    "sent (outs (happen tg_op_of (tg_handle token) ev c)) = sent (outs c) @ xs"
    and xs: "map (tg_request token) (s_payloads (obj c))
      = xs @ map (tg_request token) (s_payloads (obj (happen tg_op_of (tg_handle token) ev c)))" by blast
  then show "accepted token (happen tg_op_of (tg_handle token) ev c) = accepted token c" by (simp add: accepted_def)
  show "length (s_payloads (obj (happen tg_op_of (tg_handle token) ev c))) \<le> length (s_payloads (obj c))"
    using arg_cong [OF xs, of length] by simp
qed

lemma give_accepted:
  "mset (accepted (t_token env) (give_payload env p c)) = mset (accepted (t_token env) c) + {#tg_request (t_token env) p#}"
  by (simp add: accepted_def give_payload_def add_payload_def async_defs)

lemma launch_accepted: "accepted token (tg_launch p) = [tg_request token p]"
  by (simp add: accepted_def tg_defs async_defs)

text \<open>How many calls the saver still makes at most.\<close>

definition calls_left :: "race \<Rightarrow> nat" where
  "calls_left s = (let n = length (senders s) in case phase s of
     Testing i \<Rightarrow> 2 * n + 3 - i | Adding i \<Rightarrow> 1 | Sweeping i \<Rightarrow> n - i + 2 | Launching \<Rightarrow> 1 | Message_given \<Rightarrow> 0)"

definition sender_ok :: "string \<Rightarrow> tg_conf \<Rightarrow> bool" where
  "sender_ok token c \<longleftrightarrow> tg_sound token c \<and> length (s_payloads (obj c)) \<le> 20"

definition race_inv :: "'f tg_env \<Rightarrow> tg_payload_t \<Rightarrow> tg_conf list \<Rightarrow> race_label list \<Rightarrow> race \<Rightarrow> bool" where
  "race_inv env payload cs ls s \<longleftrightarrow> (\<forall>c\<in>set (senders s). sender_ok (t_token env) c)
     \<and> (case phase s of
          Testing i \<Rightarrow> i \<le> length (senders s)
        | Adding i \<Rightarrow> i < length (senders s) \<and> length (s_payloads (obj (senders s ! i))) < 20
        | _ \<Rightarrow> True)
     \<and> all_accepted (t_token env) (senders s) + all_accepted (t_token env) (discarded s)
         = all_accepted (t_token env) cs + (if phase s = Message_given then {#tg_request (t_token env) payload#} else {#})
     \<and> length (filter (\<lambda>l. l = Saver_moves) ls) + calls_left s \<le> 2 * length cs + 3"

lemma race_inv_sender:
  assumes inv: "race_inv env payload cs ls s" and i: "i < length (senders s)"
    and ev: "tg_op_of ev \<noteq> None" "can_happen tg_op_of (\<lambda>_ _. True) ev (senders s ! i)"
  shows "race_inv env payload cs (Sender_handles i ev # ls) (sender_move env i ev s)"
proof -
  let ?c = "happen tg_op_of (tg_handle (t_token env)) ev (senders s ! i)"
  from inv i have "tg_sound (t_token env) (senders s ! i)" "length (s_payloads (obj (senders s ! i))) \<le> 20"
    by (auto simp: race_inv_def sender_ok_def)
  with handler_accepted [OF this(1) ev(2,1)] tg_sound_step(1) [OF this(1) ev(2)]
  have c: "sender_ok (t_token env) ?c" "accepted (t_token env) ?c = accepted (t_token env) (senders s ! i)"
    "length (s_payloads (obj ?c)) \<le> length (s_payloads (obj (senders s ! i)))"
    by (auto simp: sender_ok_def)
  with inv i all_accepted_update [OF i, of "t_token env" ?c "{#}"] show ?thesis
    by (auto simp: race_inv_def sender_move_def calls_left_def nth_list_update
        dest!: set_update_subset_insert [THEN subsetD] split: saver_phase.splits)
qed

lemma race_inv_saver:
  assumes inv: "race_inv env payload cs ls s" and run: "list_all (\<lambda>c. fault c = None) (senders s)" "phase s \<noteq> Message_given"
  shows "race_inv env payload cs (Saver_moves # ls) (saver_move env payload s)"
proof (cases "phase s")
  case (Testing i)
  with inv show ?thesis
    by (auto simp: race_inv_def saver_move_def calls_left_def available_with_less_tasks_def)
next
  case (Adding i)
  with inv have i: "i < length (senders s)" "length (s_payloads (obj (senders s ! i))) < 20"
    "tg_sound (t_token env) (senders s ! i)" by (auto simp: race_inv_def sender_ok_def)
  from i(1) run(1) have "can_happen tg_op_of (\<lambda>_ _. True) (Tg_add_payload payload) (senders s ! i)"
    by (simp add: can_happen_def list_all_length)
  from tg_sound_step(1) [OF i(3) this] i(2) have "sender_ok (t_token env) (give_payload env payload (senders s ! i))"
    by (simp add: sender_ok_def give_payload_obj) (simp add: give_payload_def)
  then have "\<forall>c\<in>set ((senders s)[i := give_payload env payload (senders s ! i)]). sender_ok (t_token env) c"
    using inv by (auto simp: race_inv_def dest!: set_update_subset_insert [THEN subsetD])
  moreover have "all_accepted (t_token env) ((senders s)[i := give_payload env payload (senders s ! i)])
      = all_accepted (t_token env) (senders s) + {#tg_request (t_token env) payload#}"
    by (rule all_accepted_update [OF i(1) give_accepted])
  ultimately show ?thesis using inv Adding by (simp add: race_inv_def saver_move_def calls_left_def)
next
  case (Sweeping i)
  show ?thesis
  proof (cases "i < length (senders s) \<and> completed_operation (obj (senders s ! i))")
    case True
    then have len: "length (erase_at i (senders s)) = length (senders s) - 1" by (simp add: erase_at_def)
    from True all_accepted_erase [of i "senders s" "t_token env"] have
      eq: "all_accepted (t_token env) (erase_at i (senders s)) + (mset (accepted (t_token env) (senders s ! i))
        + all_accepted (t_token env) (discarded s)) = all_accepted (t_token env) (senders s) + all_accepted (t_token env) (discarded s)"
      by (simp add: union_assoc)
    have "\<forall>c\<in>set (erase_at i (senders s)). sender_ok (t_token env) c"
      using inv by (auto simp: race_inv_def dest!: set_erase_at [THEN subsetD])
    moreover from inv Sweeping have "length (filter (\<lambda>l. l = Saver_moves) ls) + (length (senders s) - i) \<le> 2 * length cs + 1"
      by (simp add: race_inv_def calls_left_def)
    ultimately show ?thesis using inv Sweeping True
      by (simp add: race_inv_def saver_move_def calls_left_def len eq add.commute
          [of "all_accepted (t_token env) (discarded s)"])
  next
    case False
    with inv Sweeping show ?thesis by (auto simp: race_inv_def saver_move_def calls_left_def)
  qed
next
  case Launching
  have "sender_ok (t_token env) (tg_launch payload)" by (simp add: sender_ok_def launch_payloads)
  with inv Launching show ?thesis
    by (auto simp: race_inv_def saver_move_def calls_left_def launch_accepted)
qed (use run(2) in simp)

lemma race_inv_path:
  assumes "race_path env payload (race_start cs) ls s" "\<forall>c\<in>set cs. sender_ok (t_token env) c"
  shows "race_inv env payload cs ls s"
  using assms(1)
proof (induction rule: race_path.induct)
  case path_start
  with assms(2) show ?case by (simp add: race_inv_def race_start_def calls_left_def)
next
  case (path_saver ls s)
  then show ?case by (intro race_inv_saver)
next
  case (path_sender ls s i ev)
  then show ?case by (intro race_inv_sender)
qed

text \<open>A sender that waits for the response to its only message.\<close>

definition last_read :: "tg_event list" where
  "last_read = [Tg_resolved None, Tg_connected None None, Tg_handshaken None, Tg_written None]"

lemmas stranding_run = path_simps race_start_def saver_move_def sender_move_def last_read_def give_payload_def
  tg_defs async_defs Let_def available_with_less_tasks_def completed_operation_def

section \<open>Properties\<close>

text \<open>
  C17. The calls that the saver thread makes of the senders for a message, one after the other and with
  nothing in between, end, and compute what \<open>chat_known\<close> says: the message goes to the first
  available sender, or to a new one after the completed ones were discarded if there are more than three.
\<close>

theorem race_refines_chat_known:
  "while_option (\<lambda>s. phase s \<noteq> Message_given) (saver_move env payload) (race_start cs)
     = Some \<lparr>phase = Message_given, senders = chat_known env payload cs, discarded = dropped cs\<rparr>"
  using alone_known [of env payload cs] by (simp add: saver_alone_def)




end
