(* ===== verification/Saver_Statements.thy ===== *)
theory Saver_Statements
  imports Telegram
begin

text \<open>
  The saver thread at the granularity of the database: \<open>db_mutex_\<close> makes a single statement atomic, not
  an iteration of \<open>persistent_orders_saver\<close>, so that statements of other threads run in between. The
  statements of an iteration are a function of the item and of the state of the thread; the iteration
  of Telegram is refined to them.
\<close>

section \<open>The statements of an iteration\<close>

text \<open>The updates of the cached chats, each of which stores the whole map.\<close>

definition update_statements :: "'f tg_env \<Rightarrow> cu_event list \<Rightarrow> tg_ccached_map_t \<Rightarrow> tg_ccached_map_t \<times> string list" where
  "update_statements env net chat_ids =
     fold (\<lambda>(response, error_msg) (chat_ids, stmts).
       let chat_ids' = on_tg_update_completion (t_parse env) (t_doubles env) response error_msg chat_ids
       in (chat_ids', stmts @ map cached_id_sql chat_ids')) (update_callbacks (t_token env) net) (chat_ids, [])"

definition send_statements :: "'f tg_env \<Rightarrow> cu_event list \<Rightarrow> string \<Rightarrow> 'db saver \<Rightarrow> string list" where
  "send_statements env net tg_name s = (case map_of (chats_id_map s) tg_name of
     Some _ \<Rightarrow> [] | None \<Rightarrow> snd (update_statements env net (chats_id_map s)))"

definition save_statements :: "user_stream_result_t \<Rightarrow> 'db saver \<Rightarrow> string list" where
  "save_statements item s =
     (let account = item_account item;
          table_alias = (case account_table_map s account of Some a \<Rightarrow> a | None \<Rightarrow> []);
          table_alias' = (if table_alias = [] then get_alphanum_tablename account else table_alias)
      in (if table_alias = [] then [create_order_table_sql (table_alias' @ ''_orders''),
            create_balance_table_sql (table_alias' @ ''_balance'')] else [])
         @ (case item of
              Order_item x \<Rightarrow> [add_new_order_sql (table_alias' @ ''_orders'') x]
            | Balance_item x \<Rightarrow> [add_new_balance_sql (table_alias' @ ''_balance'') x]
            | Account_item x \<Rightarrow> []))"

definition saver_statements :: "'f tg_env \<Rightarrow> cu_event list \<Rightarrow> user_stream_result_t \<Rightarrow> 'db saver \<Rightarrow> string list" where
  "saver_statements env net item s = send_statements env net (item_group item) s @ save_statements item s"

text \<open>The statements of the iterations for a list of items.\<close>

fun all_statements :: "'f tg_env \<Rightarrow> 'db otl \<Rightarrow> cu_event list \<Rightarrow> user_stream_result_t list \<Rightarrow> 'db saver \<Rightarrow> string list" where
  "all_statements env otl net [] s = []"
| "all_statements env otl net (item # items) s =
     saver_statements env net item s @ all_statements env otl net items (saver_step env otl net item s)"

definition exec_all :: "'db otl \<Rightarrow> string list \<Rightarrow> 'db \<Rightarrow> 'db" where
  "exec_all otl stmts = fold (exec_logged otl) stmts"

lemma exec_all_append: "exec_all otl (xs @ ys) db = exec_all otl ys (exec_all otl xs db)"
  by (simp add: exec_all_def)

section \<open>Refinement\<close>

lemma cached_ids_statements: "insert_update_cached_ids otl m db = exec_all otl (map cached_id_sql m) db"
  by (simp add: insert_update_cached_ids_def exec_all_def fold_map o_def)

lemma update_refines:
  "tg_get_new_updates env otl net (chat_ids, db) =
     (case update_statements env net chat_ids of (chat_ids', stmts) \<Rightarrow> (chat_ids', exec_all otl stmts db))"
proof -
  have "fold (\<lambda>(response, error_msg) (chat_ids, db).
       let chat_ids' = on_tg_update_completion (t_parse env) (t_doubles env) response error_msg chat_ids
       in (chat_ids', insert_update_cached_ids otl chat_ids' db)) cbs (chat_ids, exec_all otl stmts db)
     = (case fold (\<lambda>(response, error_msg) (chat_ids, stmts).
       let chat_ids' = on_tg_update_completion (t_parse env) (t_doubles env) response error_msg chat_ids
       in (chat_ids', stmts @ map cached_id_sql chat_ids')) cbs (chat_ids, stmts) of
         (chat_ids', stmts) \<Rightarrow> (chat_ids', exec_all otl stmts db))" for cbs stmts
  proof (induction cbs arbitrary: chat_ids stmts)
    case (Cons cb cbs)
    obtain r e where "cb = (r, e)" by (cases cb)
    with Cons.IH show ?case by (simp add: Let_def cached_ids_statements flip: exec_all_append)
  qed simp
  from this [of _ "[]"] show ?thesis by (simp add: tg_get_new_updates_def update_statements_def exec_all_def)
qed

lemma send_refines:
  "saver_db (send_telegram_message env otl net text tg_name s) = exec_all otl (send_statements env net tg_name s) (saver_db s)"
  by (auto simp: send_telegram_message_def send_statements_def update_refines exec_all_def Let_def
      split: option.split prod.split)

lemma save_refines: "saver_db (save_item otl item s) = exec_all otl (save_statements item s) (saver_db s)"
  by (cases item) (simp_all add: save_item_def save_statements_def exec_all_def Let_def
      add_new_order_def add_new_balance_def create_order_table_def create_balance_table_def)

lemma send_keeps_tables: "account_table_map (send_telegram_message env otl net text g s) = account_table_map s"
  by (auto simp: send_telegram_message_def Let_def split: option.split prod.split)

text \<open>An iteration executes its statements one after the other and changes the database in no other way.\<close>

lemma saver_step_refines:
  "saver_db (saver_step env otl net item s) = exec_all otl (saver_statements env net item s) (saver_db s)"
  by (simp add: saver_step_def save_refines send_refines saver_statements_def exec_all_append
      save_statements_def send_keeps_tables)

lemma saver_run_refines:
  "saver_db (fold (saver_step env otl net) items s) = exec_all otl (all_statements env otl net items s) (saver_db s)"
  by (induction items arbitrary: s) (simp_all add: saver_step_refines exec_all_append, simp add: exec_all_def)

section \<open>Interleaving\<close>

lemma exec_all_rows:
  "logs_all otl stmts \<Longrightarrow> rows stmts (exec_all otl xs db) = rows stmts db @ filter is_row xs"
  by (induction xs arbitrary: db) (simp_all add: exec_all_def logged_rows)

text \<open>The rows among the statements of an iteration are those of its item.\<close>

lemma update_no_rows: "filter is_row (snd (update_statements env net m)) = []"
proof -
  have "filter is_row (snd (fold (\<lambda>(response, error_msg) (chat_ids, stmts).
       let chat_ids' = on_tg_update_completion (t_parse env) (t_doubles env) response error_msg chat_ids
       in (chat_ids', stmts @ map cached_id_sql chat_ids')) cbs p)) = filter is_row (snd p)" for cbs p
    by (induction cbs arbitrary: p) (auto simp: Let_def filter_empty_conv split: prod.split)
  from this [of _ "(m, [])"] show ?thesis by (simp add: update_statements_def)
qed

lemma saver_statement_rows:
  assumes "tables_ok s"
  shows "filter is_row (saver_statements env net item s) = row_of item"
proof -
  let ?a = "case account_table_map s (item_account item) of Some a \<Rightarrow> a | None \<Rightarrow> []"
  have a: "(if ?a = [] then get_alphanum_tablename (item_account item) else ?a)
      = get_alphanum_tablename (item_account item)"
    using assms by (auto simp: tables_ok_def split: option.split)
  have "filter is_row (save_statements item s) = row_of item"
    unfolding save_statements_def Let_def a by (cases item) (simp_all add: item_account_def)
  moreover have "filter is_row (send_statements env net g s) = []" for g
    by (simp add: send_statements_def update_no_rows split: option.split)
  ultimately show ?thesis by (simp add: saver_statements_def)
qed

lemma tables_ok_step:
  assumes "tables_ok s"
  shows "tables_ok (saver_step env otl net item s)"
proof -
  let ?s = "send_telegram_message env otl net (prepare_telegram_payload item) (item_group item) s"
  from assms have "tables_ok ?s" by (simp add: tables_ok_def send_keeps_tables)
  moreover have "account_table_map (save_item otl item t) =
      (account_table_map t)(item_account item \<mapsto> get_alphanum_tablename (item_account item))" if "tables_ok t" for t
    using that by (auto simp: save_item_def tables_ok_def Let_def fun_eq_iff split: option.split)
  ultimately show ?thesis by (auto simp: saver_step_def tables_ok_def)
qed

lemma all_statement_rows:
  "tables_ok s \<Longrightarrow> filter is_row (all_statements env otl net items s) = concat (map row_of items)"
  by (induction items arbitrary: s) (simp_all add: saver_statement_rows tables_ok_step)

lemma shuffled_rows:
  assumes "zs \<in> shuffles xs ys" "list_all (\<lambda>y. \<not> P y) ys"
  shows "filter P zs = filter P xs"
proof -
  from assms(2) have "filter P ys = []" by (simp add: list_all_iff filter_empty_conv)
  with filter_shuffles [of P xs ys] assms(1) show ?thesis by (metis imageI shuffles.simps(2) singletonD)
qed

section \<open>Properties\<close>



end
