(* ===== verification/Host_Monitor.thy ===== *)
theory Host_Monitor
  imports Containers User_Stream Database
begin

text \<open>
  binance_orders/src/background_threads.cpp: the thread that polls the hosts table and puts the
  changes into the host container, and the thread that takes them out and launches, stops or
  changes the user data streams. The specification is a map from the identity of an account to its
  telegram group: after a poll and once the container is drained, the streams are those of the table.
\<close>

section \<open>The launcher\<close>

text \<open>
  \<open>websocks\<close> is the vector of streams; a stream erased from it lives on, held by its handlers
  (\<open>detached\<close>).
\<close>

record launcher =
  websocks :: "uds_conf list"
  detached :: "uds_conf list"

definition conf_host :: "uds_conf \<Rightarrow> host_info_t" where
  "conf_host c = u_host (obj c)"

definition launch_websocket_listeners :: "host_info_t list \<Rightarrow> launcher \<Rightarrow> launcher" where
  "launch_websocket_listeners previous_hosts w =
     w\<lparr>websocks := websocks w @ map uds_launch previous_hosts\<rparr>"

definition launch_previous_hosts :: "'db otl \<Rightarrow> 'db \<Rightarrow> launcher \<Rightarrow> launcher" where
  "launch_previous_hosts otl db w =
     (if get_available_hosts otl db \<noteq> [] then launch_websocket_listeners (get_available_hosts otl db) w
      else w)"

definition process_host_changes :: "'f uds_env \<Rightarrow> host_info_t \<Rightarrow> launcher \<Rightarrow> launcher" where
  "process_host_changes env host w =
     (if changes host = no_changes then w\<lparr>websocks := websocks w @ [uds_launch host]\<rparr>
      else case find_index (\<lambda>c. same_host host (conf_host c)) (websocks w) of
        None \<Rightarrow> w
      | Some i \<Rightarrow>
          (if changes host = host_removed
           then w\<lparr>websocks := erase_at i (websocks w),
             detached := detached w @ [happen uds_op_of (uds_handle env) U_stop (websocks w ! i)]\<rparr>
           else if changes host = tg_group_changed
           then w\<lparr>websocks := (websocks w)[i := happen uds_op_of (uds_handle env)
             (U_set_tg_group (tg_group_name host)) (websocks w ! i)]\<rparr>
           else w))"

section \<open>The monitor\<close>

text \<open>The first loop: hosts of the table that are new or have another telegram group.\<close>

fun scan_new :: "host_info_t list \<Rightarrow> host_info_t list \<Rightarrow> host_info_t waitable_container_t \<Rightarrow>
    host_info_t list \<times> host_info_t list \<times> host_info_t waitable_container_t" where
  "scan_new [] previous_hosts host_container = ([], previous_hosts, host_container)"
| "scan_new (new_host # rest) previous_hosts host_container =
     (case find_index (\<lambda>p. same_host p new_host) previous_hosts of
        None \<Rightarrow>
          (case scan_new rest (previous_hosts @ [new_host]) (append_item new_host host_container) of
             (hs, r) \<Rightarrow> (new_host # hs, r))
      | Some i \<Rightarrow>
          (if changes_made_to_host (previous_hosts ! i) new_host then
             let changed = new_host\<lparr>changes := tg_group_changed\<rparr>;
                 found = (previous_hosts ! i)\<lparr>tg_group_name := tg_group_name new_host,
                   account_alias := account_alias new_host\<rparr>
             in (case scan_new rest (previous_hosts[i := found]) (append_item changed host_container) of
               (hs, r) \<Rightarrow> (changed # hs, r))
           else (case scan_new rest previous_hosts host_container of (hs, r) \<Rightarrow> (new_host # hs, r))))"

text \<open>The second loop: known hosts that are no longer in the table.\<close>

fun scan_removed :: "host_info_t list \<Rightarrow> host_info_t list \<Rightarrow> host_info_t waitable_container_t \<Rightarrow>
    host_info_t list \<times> host_info_t waitable_container_t" where
  "scan_removed new_hosts [] host_container = ([], host_container)"
| "scan_removed new_hosts (old_host # rest) host_container =
     (case find_index (\<lambda>n. same_host n old_host) new_hosts of
        None \<Rightarrow> scan_removed new_hosts rest
          (append_item (old_host\<lparr>changes := host_removed\<rparr>) host_container)
      | Some _ \<Rightarrow>
          (case scan_removed new_hosts rest host_container of (hs, q) \<Rightarrow> (old_host # hs, q)))"

definition monitor_round :: "host_info_t list \<Rightarrow> host_info_t list \<Rightarrow>
    host_info_t waitable_container_t \<Rightarrow> host_info_t list \<times> host_info_t waitable_container_t" where
  "monitor_round new_hosts previous_hosts host_container =
     (case scan_new new_hosts previous_hosts host_container of
        (new_hosts, previous_hosts, host_container) \<Rightarrow>
          scan_removed new_hosts previous_hosts host_container)"

section \<open>The threads together\<close>

record monitor_sys =
  previous :: "host_info_t list"
  host_container :: "host_info_t waitable_container_t"
  watchers :: launcher

text \<open>
  One pass of the monitor's loop over the table of a database, one iteration of the launcher's
  loop, and the hosts that a session's upload handler appends.
\<close>

datatype 'db monitor_event =
    Poll 'db
  | Launcher_step
  | Uploaded "host_info_t list"

definition websock_launcher :: "'f uds_env \<Rightarrow> nat \<Rightarrow> monitor_sys \<Rightarrow> monitor_sys" where
  "websock_launcher env n m =
     (case consumer_loop get (process_host_changes env) n (host_container m) (watchers m) of
        (q, w) \<Rightarrow> m\<lparr>host_container := q, watchers := w\<rparr>)"

fun monitor_step :: "'f uds_env \<Rightarrow> 'db otl \<Rightarrow> 'db monitor_event \<Rightarrow> monitor_sys \<Rightarrow> monitor_sys" where
  "monitor_step env otl (Poll db) m =
     (case monitor_round (get_available_hosts otl db) (previous m) (host_container m) of
        (hs, q) \<Rightarrow> m\<lparr>previous := hs, host_container := q\<rparr>)"
| "monitor_step env otl Launcher_step m = websock_launcher env 1 m"
| "monitor_step env otl (Uploaded hosts) m = m\<lparr>host_container := append_list hosts (host_container m)\<rparr>"

text \<open>The start of the program: both threads read the table.\<close>

definition monitor_init :: "'db otl \<Rightarrow> 'db \<Rightarrow> monitor_sys" where
  "monitor_init otl db = \<lparr>previous = get_available_hosts otl db, host_container = waitable_empty,
     watchers = launch_previous_hosts otl db \<lparr>websocks = [], detached = []\<rparr>\<rparr>"

definition monitor_run :: "'f uds_env \<Rightarrow> 'db otl \<Rightarrow> 'db monitor_event list \<Rightarrow> monitor_sys \<Rightarrow> monitor_sys" where
  "monitor_run env otl evs m = fold (monitor_step env otl) evs m"

text \<open>The launcher runs until the container is empty.\<close>

definition drain :: "'f uds_env \<Rightarrow> monitor_sys \<Rightarrow> monitor_sys" where
  "drain env m = websock_launcher env (length (m_container (host_container m))) m"

definition watched :: "monitor_sys \<Rightarrow> host_info_t list" where
  "watched m = map conf_host (websocks (watchers m))"

section \<open>The effect of a change on the watched hosts\<close>

definition host_cfg :: "host_info_t \<Rightarrow> (string \<times> string \<times> string) \<times> string" where
  "host_cfg h = (host_key h, tg_group_name h)"

definition apply_change :: "host_info_t \<Rightarrow> host_info_t list \<Rightarrow> host_info_t list" where
  "apply_change host hs =
     (if changes host = no_changes then hs @ [host]
      else case find_index (same_host host) hs of
        None \<Rightarrow> hs
      | Some i \<Rightarrow> (if changes host = host_removed then erase_at i hs
          else hs[i := (hs ! i)\<lparr>tg_group_name := tg_group_name host\<rparr>]))"

lemma find_index_map: "find_index p (map f xs) = find_index (p \<circ> f) xs"
  by (induction xs) auto

lemma map_erase_at: "map f (erase_at i xs) = erase_at i (map f xs)"
  by (simp add: erase_at_def take_map drop_map)

lemma conf_host_launch [simp]: "conf_host (uds_launch h) = h"
  by (simp add: conf_host_def uds_launch_def uds_defs new_uds_def async_defs)

lemma conf_host_group [simp]:
  "conf_host (happen uds_op_of (uds_handle env) (U_set_tg_group g) c) = (conf_host c)\<lparr>tg_group_name := g\<rparr>"
  by (simp add: conf_host_def uds_set_tg_group_def async_defs)

text \<open>Refinement: the launcher's change of the streams is the change of the watched hosts.\<close>

lemma process_refines:
  "map conf_host (websocks (process_host_changes env host w)) = apply_change host (map conf_host (websocks w))"
proof -
  show ?thesis
    using find_index_Some [of "\<lambda>c. same_host host (conf_host c)" "websocks w"]
    by (cases "changes host")
      (auto simp: process_host_changes_def apply_change_def find_index_map comp_def map_erase_at
        map_update split: option.split)
qed

lemma process_fold_refines:
  "map conf_host (websocks (fold (process_host_changes env) as w)) = fold apply_change as (map conf_host (websocks w))"
  by (induction as arbitrary: w) (simp_all add: process_refines)

text \<open>What the watched hosts will be once the container is drained.\<close>

definition target :: "monitor_sys \<Rightarrow> host_info_t list" where
  "target m = fold apply_change (m_container (host_container m)) (watched m)"

lemma launcher_target: "target (websock_launcher env n m) = target m"
proof -
  let ?r = "consumer_loop get (process_host_changes env) n (host_container m) (watchers m)"
  let ?xs = "m_container (host_container m)"
  from wc.consumer_loop_fold [of "process_host_changes env" n "host_container m" "watchers m"]
  have r: "snd ?r = fold (process_host_changes env) (take n ?xs) (watchers m)"
    "m_container (fst ?r) = drop n ?xs" by auto
  have "fold apply_change ?xs (watched m) =
      fold apply_change (drop n ?xs) (fold apply_change (take n ?xs) (watched m))"
    by (metis append_take_drop_id fold_append comp_apply)
  with r show ?thesis
    by (cases ?r) (simp add: target_def websock_launcher_def watched_def process_fold_refines)
qed

lemma drain_target: "watched (drain env m) = target m \<and> m_container (host_container (drain env m)) = []"
proof -
  let ?n = "length (m_container (host_container m))"
  from wc.consumer_drains [of "host_container m" ?n "process_host_changes env" "watchers m"]
  have "m_container (host_container (drain env m)) = []"
    by (auto simp: drain_def websock_launcher_def split: prod.split)
  with launcher_target [of env ?n m] show ?thesis by (simp add: target_def drain_def)
qed

section \<open>What a poll does\<close>

text \<open>The same on identities and groups only.\<close>

definition cfg_change :: "host_info_t \<Rightarrow> ((string \<times> string \<times> string) \<times> string) list \<Rightarrow>
    ((string \<times> string \<times> string) \<times> string) list" where
  "cfg_change host cs =
     (if changes host = no_changes then cs @ [host_cfg host]
      else case find_index (\<lambda>c. fst c = host_key host) cs of
        None \<Rightarrow> cs
      | Some i \<Rightarrow> (if changes host = host_removed then erase_at i cs else cs[i := host_cfg host]))"

lemma apply_change_cfg: "map host_cfg (apply_change host hs) = cfg_change host (map host_cfg hs)"
proof -
  have same: "find_index (\<lambda>c. fst c = host_key host) (map host_cfg hs) = find_index (same_host host) hs"
  proof -
    have "same_host host = (\<lambda>h. host_key h = host_key host)" by (auto simp: same_host_key)
    then show ?thesis by (simp add: find_index_map comp_def host_cfg_def)
  qed
  have upd: "(map host_cfg hs)[i := host_cfg host] =
      map host_cfg (hs[i := (hs ! i)\<lparr>tg_group_name := tg_group_name host\<rparr>])"
    if "find_index (same_host host) hs = Some i" for i
    using find_index_Some [OF that]
    by (simp add: map_update host_cfg_def same_host_key) (simp add: host_key_def)
  show ?thesis
    by (cases "find_index (same_host host) hs")
      (simp_all add: apply_change_def cfg_change_def same map_erase_at upd)
qed

lemma apply_fold_cfg: "map host_cfg (fold apply_change as hs) = fold cfg_change as (map host_cfg hs)"
  by (induction as arbitrary: hs) (simp_all add: apply_change_cfg)

lemma fst_host_cfg [simp]: "map fst (map host_cfg hs) = map host_key hs"
  by (simp add: host_cfg_def)

lemma map_of_list_update:
  "distinct (map fst cs) \<Longrightarrow> i < length cs \<Longrightarrow> fst (cs ! i) = k \<Longrightarrow> map_of (cs[i := (k, v)]) = (map_of cs)(k \<mapsto> v)"
proof (induction cs arbitrary: i)
  case (Cons c cs)
  show ?case
  proof (cases i)
    case 0
    with Cons.prems show ?thesis by (cases c) (auto simp: fun_eq_iff)
  next
    case (Suc j)
    with Cons have j: "map_of (cs[j := (k, v)]) = (map_of cs)(k \<mapsto> v)" by (simp add: fun_upd_def)
    from Suc Cons.prems have "k \<in> fst ` set cs" by auto
    moreover from Cons.prems(1) have "fst c \<notin> fst ` set cs" by simp
    ultimately have "fst c \<noteq> k" by blast
    with Suc j show ?thesis by (cases c) (auto simp: fun_eq_iff)
  qed
qed simp

lemma map_of_snoc: "k \<notin> set (map fst cs) \<Longrightarrow> map_of (cs @ [(k, v)]) = (map_of cs)(k \<mapsto> v)"
  by (induction cs) (auto simp: fun_eq_iff)

lemma find_key_Some:
  assumes "find_index (\<lambda>p. same_host p n) prev = Some i"
  shows "i < length prev" "host_key (prev ! i) = host_key n"
  using find_index_Some [OF assms] by (simp_all add: same_host_key)

lemma find_key_None:
  "find_index (\<lambda>p. same_host p n) prev = None \<longleftrightarrow> host_key n \<notin> set (map host_key prev)"
  by (simp add: find_index_None same_host_key image_iff eq_commute [of "host_key n"])

lemma host_key_changes [simp]: "host_key (h\<lparr>changes := ch\<rparr>) = host_key h"
  by (simp add: host_key_def)

lemma find_cfg:
  "find_index (\<lambda>c. fst c = host_key n) (map host_cfg prev) = find_index (\<lambda>p. same_host p n) prev"
  by (simp add: find_index_map comp_def host_cfg_def same_host_key)

definition set_group :: "host_info_t \<Rightarrow> (string \<times> string \<times> string \<rightharpoonup> string) \<Rightarrow>
    (string \<times> string \<times> string \<rightharpoonup> string)" where
  "set_group n m = m(host_key n \<mapsto> tg_group_name n)"

text \<open>The first loop: what it puts into the container turns the known hosts before into those after.\<close>

lemma scan_new_spec:
  assumes "scan_new ns prev q = (ns', prev', q')" "distinct (map host_key prev)"
    and "\<forall>n\<in>set ns. changes n = no_changes"
  shows "\<exists>as. m_container q' = m_container q @ as
    \<and> fold cfg_change as (map host_cfg prev) = map host_cfg prev'
    \<and> distinct (map host_key prev') \<and> map host_key ns' = map host_key ns
    \<and> map_of (map host_cfg prev') = fold set_group ns (map_of (map host_cfg prev))"
  using assms
proof (induction ns arbitrary: prev q ns' prev' q')
  case Nil
  then show ?case by (intro exI [of _ "[]"]) simp
next
  case (Cons n ns)
  show ?case
  proof (cases "find_index (\<lambda>p. same_host p n) prev")
    case None
    with Cons.prems obtain hs where r: "scan_new ns (prev @ [n]) (append_item n q) = (hs, prev', q')"
      "ns' = n # hs" by (auto split: prod.splits)
    from None have new: "host_key n \<notin> set (map host_key prev)" by (simp add: find_key_None)
    with Cons.prems Cons.IH [OF r(1)] obtain as where
      "m_container q' = m_container (append_item n q) @ as"
      "fold cfg_change as (map host_cfg (prev @ [n])) = map host_cfg prev'"
      "distinct (map host_key prev')" "map host_key hs = map host_key ns"
      "map_of (map host_cfg prev') = fold set_group ns (map_of (map host_cfg (prev @ [n])))" by auto
    moreover have "cfg_change n (map host_cfg prev) = map host_cfg (prev @ [n])"
      using Cons.prems(3) by (simp add: cfg_change_def)
    moreover have "map_of (map host_cfg (prev @ [n])) = set_group n (map_of (map host_cfg prev))"
      using map_of_snoc [of "host_key n" "map host_cfg prev" "tg_group_name n"] new
      unfolding fst_host_cfg by (simp add: set_group_def host_cfg_def [of n])
    ultimately show ?thesis using r(2)
      by (intro exI [of _ "n # as"]) (simp add: append_item_def del: map_append)
  next
    case (Some i)
    note i = find_key_Some [OF Some]
    let ?cs = "map host_cfg prev"
    have nth: "fst (?cs ! i) = host_key n" using i by (simp add: host_cfg_def)
    show ?thesis
    proof (cases "changes_made_to_host (prev ! i) n")
      case True
      let ?n = "n\<lparr>changes := tg_group_changed\<rparr>"
      let ?prev = "prev[i := (prev ! i)\<lparr>tg_group_name := tg_group_name n, account_alias := account_alias n\<rparr>]"
      from Cons.prems Some True obtain hs where r: "scan_new ns ?prev (append_item ?n q) = (hs, prev', q')"
        "ns' = ?n # hs" by (auto simp: Let_def split: prod.splits)
      have cfg: "map host_cfg ?prev = ?cs[i := host_cfg n]" "map host_key ?prev = map host_key prev"
        using i by (simp_all add: map_update host_cfg_def host_key_def list_update_same_conv)
      with Cons.prems Cons.IH [OF r(1)] obtain as where
        "m_container q' = m_container (append_item ?n q) @ as"
        "fold cfg_change as (?cs[i := host_cfg n]) = map host_cfg prev'"
        "distinct (map host_key prev')" "map host_key hs = map host_key ns"
        "map_of (map host_cfg prev') = fold set_group ns (map_of (?cs[i := host_cfg n]))" by auto
      moreover have "cfg_change ?n ?cs = ?cs[i := host_cfg n]"
        using Some find_cfg [of n prev]
        by (simp add: cfg_change_def) (simp add: host_cfg_def host_key_def)
      moreover have "map_of (?cs[i := host_cfg n]) = set_group n (map_of ?cs)"
        using map_of_list_update [of ?cs i "host_key n" "tg_group_name n"] Cons.prems(2) nth i
        by (simp add: set_group_def host_cfg_def comp_def)
      ultimately show ?thesis using r(2)
        by (intro exI [of _ "?n # as"]) (simp add: append_item_def)
    next
      case False
      with Cons.prems Some obtain hs where r: "scan_new ns prev q = (hs, prev', q')" "ns' = n # hs"
        by (auto split: prod.splits)
      have "?cs[i := host_cfg n] = ?cs"
        using False i by (simp add: list_update_same_conv host_cfg_def changes_made_to_host_def)
      with map_of_list_update [of ?cs i "host_key n" "tg_group_name n"] Cons.prems(2) nth i
      have "set_group n (map_of ?cs) = map_of ?cs" by (simp add: set_group_def host_cfg_def comp_def)
      with Cons.prems Cons.IH [OF r(1)] r(2) show ?thesis by auto
    qed
  qed
qed

text \<open>The second loop, with the hosts \<open>pre\<close> that it has already kept.\<close>

lemma find_index_append: "(\<forall>x\<in>set pre. \<not> P x) \<Longrightarrow> P y \<Longrightarrow> find_index P (pre @ y # r) = Some (length pre)"
  by (induction pre) auto

lemma cfg_removed:
  assumes "distinct (map host_key (pre @ old # rest))"
  shows "cfg_change (old\<lparr>changes := host_removed\<rparr>) (map host_cfg (pre @ old # rest)) = map host_cfg (pre @ rest)"
proof -
  have "\<forall>x\<in>set (map host_cfg pre). fst x \<noteq> host_key old"
    using assms by (force simp: host_cfg_def)
  then have "find_index (\<lambda>c. fst c = host_key old) (map host_cfg pre @ host_cfg old # map host_cfg rest)
      = Some (length (map host_cfg pre))"
    by (intro find_index_append) (simp_all add: host_cfg_def)
  then show ?thesis by (simp add: cfg_change_def erase_at_def)
qed

lemma scan_removed_spec:
  assumes "scan_removed new olds q = (hs, q')" "distinct (map host_key (pre @ olds))"
  shows "\<exists>as. m_container q' = m_container q @ as
    \<and> fold cfg_change as (map host_cfg (pre @ olds)) = map host_cfg (pre @ hs)
    \<and> hs = filter (\<lambda>p. host_key p \<in> set (map host_key new)) olds"
  using assms
proof (induction olds arbitrary: pre q hs q')
  case Nil
  then show ?case by (intro exI [of _ "[]"]) simp
next
  case (Cons old rest)
  have found: "find_index (\<lambda>n. same_host n old) new = None \<longleftrightarrow> host_key old \<notin> set (map host_key new)"
    by (rule find_key_None)
  show ?case
  proof (cases "find_index (\<lambda>n. same_host n old) new")
    case None
    let ?old = "old\<lparr>changes := host_removed\<rparr>"
    from None Cons.prems have r: "scan_removed new rest (append_item ?old q) = (hs, q')"
      "distinct (map host_key (pre @ rest))" by simp_all
    from Cons.IH [OF r] obtain as where "m_container q' = m_container (append_item ?old q) @ as"
      "fold cfg_change as (map host_cfg (pre @ rest)) = map host_cfg (pre @ hs)"
      "hs = filter (\<lambda>p. host_key p \<in> set (map host_key new)) rest" by blast
    with None found cfg_removed [OF Cons.prems(2)] show ?thesis
      by (intro exI [of _ "?old # as"]) (simp add: append_item_def)
  next
    case (Some i)
    with Cons.prems obtain hs' where r: "scan_removed new rest q = (hs', q')" "hs = old # hs'"
      by (auto split: prod.splits)
    with Cons.prems have "distinct (map host_key ((pre @ [old]) @ rest))" by simp
    from Cons.IH [OF r(1) this] Some found r(2) show ?thesis by simp
  qed
qed

lemma set_group_fold:
  "fold set_group ns m = m ++ map_of (rev (map host_cfg ns))"
  by (induction ns rule: rev_induct) (auto simp: set_group_def host_cfg_def fun_eq_iff map_add_def)

lemma map_of_filter_keys:
  "map_of (map host_cfg (filter (\<lambda>p. host_key p \<in> K) ps)) = map_of (map host_cfg ps) |` K"
  by (induction ps) (auto simp: host_cfg_def fun_eq_iff restrict_map_def)

text \<open>A whole pass over the table: the known hosts become exactly those of the table.\<close>

lemma monitor_round_spec:
  assumes "monitor_round new prev q = (prev', q')" "distinct (map host_key prev)"
    and "\<forall>n\<in>set new. changes n = no_changes"
  shows "\<exists>as. m_container q' = m_container q @ as
    \<and> fold cfg_change as (map host_cfg prev) = map host_cfg prev' \<and> distinct (map host_key prev')
    \<and> map_of (map host_cfg prev') = map_of (rev (map host_cfg new))"
proof -
  obtain new1 prev1 q1 where s: "scan_new new prev q = (new1, prev1, q1)" by (cases "scan_new new prev q")
  with assms(1) have r: "scan_removed new1 prev1 q1 = (prev', q')" by (simp add: monitor_round_def)
  from scan_new_spec [OF s assms(2,3)] obtain as1 where s1: "m_container q1 = m_container q @ as1"
    "fold cfg_change as1 (map host_cfg prev) = map host_cfg prev1" "distinct (map host_key prev1)"
    "map host_key new1 = map host_key new"
    "map_of (map host_cfg prev1) = fold set_group new (map_of (map host_cfg prev))" by blast
  from scan_removed_spec [OF r, of "[]"] s1(3) obtain as2 where s2: "m_container q' = m_container q1 @ as2"
    "fold cfg_change as2 (map host_cfg prev1) = map host_cfg prev'"
    "prev' = filter (\<lambda>p. host_key p \<in> set (map host_key new)) prev1" by (auto simp: s1(4))
  have "map_of (map host_cfg prev') = (map_of (map host_cfg prev) ++ map_of (rev (map host_cfg new)))
      |` set (map host_key new)"
    unfolding s2(3) map_of_filter_keys s1(5) set_group_fold ..
  also have "\<dots> = map_of (rev (map host_cfg new))"
  proof
    fix k
    have "k \<in> set (map host_key new) \<longleftrightarrow> map_of (rev (map host_cfg new)) k \<noteq> None"
      by (auto simp: map_of_eq_None_iff host_cfg_def image_iff)
    then show "((map_of (map host_cfg prev) ++ map_of (rev (map host_cfg new)))
      |` set (map host_key new)) k = map_of (rev (map host_cfg new)) k"
      by (auto simp: restrict_map_def map_add_def split: option.split)
  qed
  finally have "map_of (map host_cfg prev') = map_of (rev (map host_cfg new))" .
  moreover have "distinct (map host_key prev')"
    using s1(3) unfolding s2(3) by (rule distinct_map_filter)
  ultimately show ?thesis using s1 s2 by (intro exI [of _ "as1 @ as2"]) simp
qed

section \<open>Properties\<close>

definition synced :: "monitor_sys \<Rightarrow> bool" where
  "synced m \<longleftrightarrow> map host_cfg (target m) = map host_cfg (previous m) \<and> distinct (map host_key (previous m))"

lemma hosts_no_changes: "\<forall>h\<in>set (get_available_hosts otl db). changes h = no_changes"
  by (auto simp: get_available_hosts_def)

lemma poll_synced:
  assumes "synced m"
  shows "synced (monitor_step env otl (Poll db) m)
    \<and> map_of (map host_cfg (previous (monitor_step env otl (Poll db) m)))
      = map_of (rev (map host_cfg (get_available_hosts otl db)))"
proof -
  obtain prev' q' where r: "monitor_round (get_available_hosts otl db) (previous m) (host_container m) = (prev', q')"
    by fastforce
  from monitor_round_spec [OF r _ hosts_no_changes] assms obtain as where
    as: "m_container q' = m_container (host_container m) @ as"
    "fold cfg_change as (map host_cfg (previous m)) = map host_cfg prev'" "distinct (map host_key prev')"
    "map_of (map host_cfg prev') = map_of (rev (map host_cfg (get_available_hosts otl db)))"
    by (auto simp: synced_def)
  have "map host_cfg (fold apply_change as (target m)) = map host_cfg prev'"
    using assms as(2) by (simp add: apply_fold_cfg synced_def)
  with r as show ?thesis by (simp add: synced_def target_def watched_def)
qed

lemma launcher_synced: "synced m \<Longrightarrow> synced (websock_launcher env n m)"
proof -
  have "previous (websock_launcher env n m) = previous m"
    by (simp add: websock_launcher_def split: prod.split)
  then show "synced m \<Longrightarrow> synced (websock_launcher env n m)"
    unfolding synced_def launcher_target by metis
qed

lemma step_synced:
  assumes "synced m" "\<forall>hs. ev \<noteq> Uploaded hs"
  shows "synced (monitor_step env otl ev m)"
proof (cases ev)
  case (Poll db)
  with poll_synced [OF assms(1), of env otl db] show ?thesis by metis
next
  case Launcher_step
  with launcher_synced [OF assms(1)] show ?thesis by (metis monitor_step.simps(2))
next
  case (Uploaded hs)
  with assms(2) show ?thesis by blast
qed

fun is_upload :: "'db monitor_event \<Rightarrow> bool" where
  "is_upload (Uploaded _) = True"
| "is_upload _ = False"

lemma run_synced: "synced m \<Longrightarrow> \<not> list_ex is_upload evs \<Longrightarrow> synced (monitor_run env otl evs m)"
proof (induction evs arbitrary: m)
  case (Cons ev evs)
  then have "\<forall>hs. ev \<noteq> Uploaded hs" by auto
  from Cons.IH [OF step_synced [OF Cons.prems(1) this]] Cons.prems(2) show ?case by (simp add: monitor_run_def)
qed (simp add: monitor_run_def)

lemma init_synced:
  "distinct (map host_key (get_available_hosts otl db)) \<Longrightarrow> synced (monitor_init otl db)"
  by (simp add: synced_def target_def watched_def monitor_init_def launch_previous_hosts_def
      launch_websocket_listeners_def waitable_empty_def comp_def)

lemma synced_poll:
  assumes "synced m" "m' = drain env (monitor_step env otl (Poll db) m)"
  shows "map_of (map host_cfg (watched m')) = map_of (rev (map host_cfg (get_available_hosts otl db)))
    \<and> distinct (map host_key (watched m'))"
proof -
  let ?m = "monitor_step env otl (Poll db) m"
  have "synced ?m \<and> map_of (map host_cfg (previous ?m)) = map_of (rev (map host_cfg (get_available_hosts otl db)))"
    by (rule poll_synced [OF assms(1)])
  then have "map_of (map host_cfg (watched m')) = map_of (rev (map host_cfg (get_available_hosts otl db)))"
    "distinct (map fst (map host_cfg (watched m')))"
    using assms(2) by (simp_all only: drain_target synced_def fst_host_cfg)
  then show ?thesis by (simp only: fst_host_cfg)
qed

lemma follow_table:
  assumes "distinct (map host_key (get_available_hosts otl db0))" "\<not> list_ex is_upload evs"
    and "m = drain env (monitor_step env otl (Poll db) (monitor_run env otl evs (monitor_init otl db0)))"
  shows "map_of (map host_cfg (watched m)) = map_of (rev (map host_cfg (get_available_hosts otl db)))
    \<and> distinct (map host_key (watched m))"
  by (rule synced_poll [OF run_synced [OF init_synced [OF assms(1)] assms(2)] assms(3)])

text \<open>An OTL whose database is its hosts table.\<close>

definition table_otl :: "(string \<times> string \<times> string \<times> string) list otl" where
  "table_otl = \<lparr>direct_exec = (\<lambda>_ db. Some db), select_hosts = (\<lambda>db. db), select_chats = (\<lambda>_. []),
     rlogon = (\<lambda>_ db. Some db), logoff = (\<lambda>db. db)\<rparr>"

definition row_a :: "string \<times> string \<times> string \<times> string" where
  "row_a = (''a'', ''ka'', ''sa'', ''g1'')"

definition row_b :: "string \<times> string \<times> string \<times> string" where
  "row_b = (''b'', ''kb'', ''sb'', ''g1'')"

definition blind_env :: "int uds_env" where
  "blind_env = \<lparr>e_parse = (\<lambda>_. None), e_doubles = whole_doubles, e_text_at = (\<lambda>_. Some [])\<rparr>"

definition row_host :: "string \<times> string \<times> string \<times> string \<Rightarrow> host_info_t" where
  "row_host = (\<lambda>(al, key, secret, grp). \<lparr>account_alias = al, api_key = key, secret_key = secret,
     tg_group_name = grp, changes = no_changes\<rparr>)"

lemma table_hosts: "get_available_hosts table_otl db = map row_host db"
  by (simp add: get_available_hosts_def table_otl_def row_host_def)

text \<open>
  However polls and launcher iterations interleave, once the launcher has emptied the container
  after a poll, the streams are exactly the accounts of the polled table, one stream each, with the
  telegram groups of the table (of the last row, should the table repeat an account).
\<close>

theorem hosts_follow_table:
  assumes "distinct (map host_key (get_available_hosts otl db0))" "\<not> list_ex is_upload evs"
    and "m = drain env (monitor_step env otl (Poll db) (monitor_run env otl evs (monitor_init otl db0)))"
  shows "map_of (map host_cfg (watched m)) = map_of (rev (map host_cfg (get_available_hosts otl db)))
    \<and> distinct (map host_key (watched m))"
  by (rule follow_table [OF assms])

theorem hosts_follow_table_witness:
  "\<exists>m. map_of (map host_cfg (watched m)) (''a'', ''ka'', ''sa'') = Some ''g2''
     \<and> map_of (map host_cfg (watched m)) (''b'', ''kb'', ''sb'') = None \<and> distinct (map host_key (watched m))"
proof -
  let ?m = "drain blind_env (monitor_step blind_env table_otl (Poll [(''a'', ''ka'', ''sa'', ''g2'')])
    (monitor_run blind_env table_otl [Launcher_step, Poll [row_a, row_b]] (monitor_init table_otl [row_a])))"
  have "map_of (map host_cfg (watched ?m)) = map_of (rev (map host_cfg (get_available_hosts table_otl
      [(''a'', ''ka'', ''sa'', ''g2'')]))) \<and> distinct (map host_key (watched ?m))"
    by (rule hosts_follow_table [OF _ _ refl]) (simp_all add: table_hosts)
  then show ?thesis
    by (intro exI [of _ ?m]) (simp add: table_hosts row_host_def host_cfg_def host_key_def)
qed

text \<open>
  \<open>get_available_hosts\<close> returns no hosts when its SELECT fails, which the monitor takes for an
  empty table: the poll stops and drops every stream.
\<close>

theorem failed_select_stops_all:
  assumes "distinct (map host_key (get_available_hosts otl db0))" "\<not> list_ex is_upload evs"
    and "select_hosts otl db = []"
  shows "websocks (watchers (drain env (monitor_step env otl (Poll db)
    (monitor_run env otl evs (monitor_init otl db0))))) = []"
proof -
  let ?m = "drain env (monitor_step env otl (Poll db) (monitor_run env otl evs (monitor_init otl db0)))"
  from follow_table [OF assms(1,2) refl, of env db] assms(3)
  have "map_of (map host_cfg (watched ?m)) = Map.empty" by (simp add: get_available_hosts_def)
  then have "map host_cfg (watched ?m) = []" by (metis map_of_eq_empty_iff)
  then show ?thesis by (simp add: watched_def)
qed

theorem failed_select_stops_all_witness:
  "websocks (watchers (monitor_init table_otl [row_a, row_b])) \<noteq> []
    \<and> websocks (watchers (drain blind_env (monitor_step blind_env table_otl (Poll [])
      (monitor_run blind_env table_otl [] (monitor_init table_otl [row_a, row_b]))))) = []"
  using failed_select_stops_all [of table_otl "[row_a, row_b]" "[]" "[]" blind_env]
  by (simp add: table_hosts table_otl_def row_a_def row_b_def row_host_def host_key_def
      monitor_init_def launch_previous_hosts_def launch_websocket_listeners_def get_available_hosts_def)


end
