(* ===== verification/Session.thy ===== *)
theory Session
  imports Async Http Url Database "HOL-Library.Multiset"
begin

text \<open>
  binance_orders/src/session.cpp: \<open>session_t\<close>, one HTTP connection of the web server: its routes, the
  two request handlers, the responses, and the read-respond loop. The JSON serialiser \<open>dump\<close> and the
  parser are parameters.
\<close>

section \<open>Routes\<close>

datatype route_callback = Index_page_handler | Upload_handler

record rule_t =
  num_verbs :: nat
  verbs :: "verb list"
  route_callback :: route_callback

text \<open>The array \<open>verbs_\<close> has three elements.\<close>

definition make_rule :: "verb list \<Rightarrow> route_callback \<Rightarrow> rule_t res" where
  "make_rule vs callback =
     (if 3 < length vs then raise (Runtime_error ''maximum number of verbs is 5'')
      else ok \<lparr>num_verbs = length vs, verbs = vs @ replicate (3 - length vs) Verb_unknown,
        route_callback = callback\<rparr>)"

type_synonym endpoint_t = "string \<rightharpoonup> rule_t"

definition add_endpoint :: "string \<Rightarrow> verb list \<Rightarrow> route_callback \<Rightarrow> endpoint_t \<Rightarrow> endpoint_t res" where
  "add_endpoint route vs callback endpoints =
     (if route = [] \<or> hd route \<noteq> CHR ''/'' then raise (Runtime_error ''A valid route starts with a /'')
      else rbind (make_rule vs callback) (\<lambda>r. ok (emplace route r endpoints)))"

definition get_rules :: "string \<Rightarrow> endpoint_t \<Rightarrow> rule_t option" where
  "get_rules target endpoints = endpoints target"

definition add_endpoint_interfaces :: "endpoint_t \<Rightarrow> endpoint_t res" where
  "add_endpoint_interfaces endpoints =
     rbind (add_endpoint ''/'' [Verb_get] Index_page_handler endpoints)
       (add_endpoint ''/upload'' [Verb_post] Upload_handler)"

section \<open>Requests and responses\<close>

record string_request_t =
  rq_method :: verb
  rq_target :: string
  rq_version :: nat
  rq_keep_alive :: bool
  rq_body :: string

definition default_request :: string_request_t where
  "default_request = \<lparr>rq_method = Verb_unknown, rq_target = [], rq_version = 11,
     rq_keep_alive = True, rq_body = []\<rparr>"

record string_response_t =
  rs_status :: nat
  rs_version :: nat
  rs_content_type :: string
  rs_keep_alive :: bool
  rs_body :: string

datatype error_type_e =
    NoError | ResourceNotFound | RequiresUpdate | BadRequest | ServerError | MethodNotAllowed | Unauthorized

text \<open>An enumerator converts to a JSON number.\<close>

definition error_code :: "error_type_e \<Rightarrow> 'f json" where
  "error_code t = J_integer (case t of NoError \<Rightarrow> 0 | ResourceNotFound \<Rightarrow> 1 | RequiresUpdate \<Rightarrow> 2
     | BadRequest \<Rightarrow> 3 | ServerError \<Rightarrow> 4 | MethodNotAllowed \<Rightarrow> 5 | Unauthorized \<Rightarrow> 6)"

record 'f session_env =
  sv_parse :: "string \<Rightarrow> 'f json option"
  sv_dump :: "'f json \<Rightarrow> string"

definition make_response :: "'f session_env \<Rightarrow> nat \<Rightarrow> 'f json \<Rightarrow> string_request_t \<Rightarrow> string_response_t" where
  "make_response env status body req = \<lparr>rs_status = status, rs_version = rq_version req,
     rs_content_type = ''application/json'', rs_keep_alive = rq_keep_alive req, rs_body = sv_dump env body\<rparr>"

definition get_error ::
  "'f session_env \<Rightarrow> string \<Rightarrow> error_type_e \<Rightarrow> nat \<Rightarrow> string_request_t \<Rightarrow> string_response_t" where
  "get_error env error_message type status req = make_response env status
     (J_object [(''message'', J_string error_message), (''status'', error_code type)]) req"

definition json_success :: "'f session_env \<Rightarrow> 'f json \<Rightarrow> string_request_t \<Rightarrow> string_response_t" where
  "json_success env body req = make_response env 200 body req"

definition success :: "'f session_env \<Rightarrow> string \<Rightarrow> string_request_t \<Rightarrow> string_response_t" where
  "success env message req = make_response env 200
     (J_object [(''message'', J_string message), (''status'', error_code NoError)]) req"

definition not_found :: "'f session_env \<Rightarrow> string_request_t \<Rightarrow> string_response_t" where
  "not_found env = get_error env ''url not found'' ResourceNotFound 404"

definition upgrade_required :: "'f session_env \<Rightarrow> string_request_t \<Rightarrow> string_response_t" where
  "upgrade_required env = get_error env ''you need to upgrade your client software'' ResourceNotFound 426"

definition server_error :: "'f session_env \<Rightarrow> string \<Rightarrow> error_type_e \<Rightarrow> string_request_t \<Rightarrow> string_response_t" where
  "server_error env message type = get_error env message type 500"

definition bad_request :: "'f session_env \<Rightarrow> string \<Rightarrow> string_request_t \<Rightarrow> string_response_t" where
  "bad_request env message = get_error env message BadRequest 400"

definition permission_denied :: "'f session_env \<Rightarrow> string_request_t \<Rightarrow> string_response_t" where
  "permission_denied env = get_error env ''permission denied'' Unauthorized 401"

definition method_not_allowed :: "'f session_env \<Rightarrow> string_request_t \<Rightarrow> string_response_t" where
  "method_not_allowed env = get_error env ''method not allowed'' MethodNotAllowed 405"

section \<open>The session\<close>

text \<open>
  \<open>se_db\<close> is the database behind the connector, which the upload handler writes to; what it appends
  to the host container is an output.
\<close>

record 'db session =
  se_open :: bool
  se_header_parser :: bool
  se_request_parser :: bool
  se_content_type :: string
  se_resp :: "string_response_t option"
  se_endpoints :: endpoint_t
  se_db :: 'db

datatype se_op = Se_read_header | Se_read | Se_write | Se_write_close

datatype se_out = Responded string_response_t | Hosts_queued "host_info_t list" | Se_log string

datatype read_result = Read_ok | End_of_stream | Body_limit string | Read_failed string

datatype se_event =
    Se_header_read read_result string
  | Se_data_read read_result string_request_t
  | Se_written "string option"
  | Se_written_close

type_synonym 'db se_handler = "('db session, se_op, se_out) handler"
type_synonym 'db se_conf = "('db session, se_op, se_out) conf"

definition new_session :: "'db \<Rightarrow> 'db session res" where
  "new_session db = rbind (add_endpoint_interfaces Map.empty) (\<lambda>e.
     ok \<lparr>se_open = True, se_header_parser = False, se_request_parser = False, se_content_type = [],
       se_resp = None, se_endpoints = e, se_db = db\<rparr>)"

definition http_read_data :: "'db se_handler" where
  "http_read_data s = ok (s\<lparr>se_header_parser := True\<rparr>, [Start Se_read_header])"

definition session_run :: "'db se_handler" where
  "session_run = http_read_data"

definition is_closed :: "'db session \<Rightarrow> bool" where
  "is_closed s \<longleftrightarrow> \<not> se_open s"

definition shutdown_socket :: "'db se_handler" where
  "shutdown_socket s = ok (s\<lparr>se_open := False\<rparr>, [])"

definition error_handler :: "string_response_t \<Rightarrow> bool \<Rightarrow> 'db se_handler" where
  "error_handler response close_socket s = ok (s\<lparr>se_resp := Some response\<rparr>,
     [Emit (Responded response), Start (if \<not> close_socket then Se_write else Se_write_close)])"

definition send_response :: "string_response_t \<Rightarrow> 'db se_handler" where
  "send_response response s = ok (s\<lparr>se_resp := Some response\<rparr>, [Emit (Responded response), Start Se_write])"

definition on_data_written :: "string option \<Rightarrow> 'db se_handler" where
  "on_data_written ec s = (case ec of
     Some msg \<Rightarrow> ok (s, [Emit (Se_log msg)])
   | None \<Rightarrow> http_read_data (s\<lparr>se_resp := None\<rparr>))"

definition index_page_handler :: "'f session_env \<Rightarrow> string_request_t \<Rightarrow> 'db se_handler" where
  "index_page_handler env request = error_handler (get_error env ''login'' NoError 200 request) False"

text \<open>The fields of one uploaded account.\<close>

definition host_of_json :: "'f json \<Rightarrow> host_info_t res" where
  "host_of_json json_item =
     rbind (get_object json_item) (\<lambda>info.
     rbind (get_value_string info ''api_key'') (\<lambda>key.
     rbind (get_value_string info ''secret_key'') (\<lambda>secret.
     rbind (get_value_string info ''alias'') (\<lambda>al.
     rbind (get_value_string info ''tg_group'') (\<lambda>grp.
     ok \<lparr>account_alias = al, api_key = key, secret_key = secret, tg_group_name = grp,
       changes = no_changes\<rparr>)))))"

text \<open>The loop of \<open>upload_handler\<close>: an exception leaves it with the rows stored so far.\<close>

fun upload_loop :: "'db otl \<Rightarrow> 'f json list \<Rightarrow> host_info_t list \<Rightarrow> string list \<Rightarrow> 'db \<Rightarrow>
    (host_info_t list \<times> string list) res \<times> 'db" where
  "upload_loop otl [] hosts error_list db = (ok (hosts, error_list), db)"
| "upload_loop otl (json_item # rest) hosts error_list db =
     (case host_of_json json_item of
        Inl e \<Rightarrow> (raise e, db)
      | Inr host_info \<Rightarrow>
          (case add_new_host otl host_info db of
             (stored, db') \<Rightarrow>
               if stored then upload_loop otl rest (hosts @ [host_info]) error_list db'
               else upload_loop otl rest hosts (error_list @ [api_key host_info]) db'))"

definition upload_handler :: "'f session_env \<Rightarrow> 'db otl \<Rightarrow> string_request_t \<Rightarrow> 'db se_handler" where
  "upload_handler env otl request s =
     (case rbind (parse_json (sv_parse env) (rq_body request)) get_array of
        Inl e \<Rightarrow> error_handler (bad_request env ''JSON object is invalid'' request) False s
      | Inr info_list \<Rightarrow>
          (case upload_loop otl info_list [] [] (se_db s) of
             (Inl e, db) \<Rightarrow> error_handler (bad_request env ''JSON object is invalid'' request) False
               (s\<lparr>se_db := db\<rparr>)
           | (Inr (hosts, error_list), db) \<Rightarrow> emit_then (Hosts_queued hosts)
               (send_response (json_success env (J_array (map J_string error_list)) request))
               (s\<lparr>se_db := db\<rparr>)))"

definition handle_requests :: "'f session_env \<Rightarrow> 'db otl \<Rightarrow> string_request_t \<Rightarrow> 'db se_handler" where
  "handle_requests env otl request s =
     rbind (decode_url (rq_target request)) (\<lambda>request_target.
       if request_target = [] then index_page_handler env request s
       else rbind (split_string_view request_target ''?'') (\<lambda>split.
         case get_rules (split ! 0) (se_endpoints s) of
           None \<Rightarrow> error_handler (not_found env request) False s
         | Some rule \<Rightarrow>
             if rq_method request \<notin> set (take (num_verbs rule) (verbs rule))
             then error_handler (method_not_allowed env request) False s
             else rbind (split_optional_queries (if 1 < length split then split ! 1 else [])) (\<lambda>url_query.
               case route_callback rule of
                 Index_page_handler \<Rightarrow> index_page_handler env request s
               | Upload_handler \<Rightarrow> upload_handler env otl request s)))"

definition on_header_read :: "'f session_env \<Rightarrow> read_result \<Rightarrow> string \<Rightarrow> 'db se_handler" where
  "on_header_read env ec content_type s = (case ec of
     End_of_stream \<Rightarrow> shutdown_socket s
   | Read_ok \<Rightarrow>
       (if se_header_parser s
        then ok (s\<lparr>se_content_type := content_type, se_request_parser := True\<rparr>, [Start Se_read])
        else raise Undefined_behaviour)
   | Body_limit msg \<Rightarrow> error_handler (server_error env msg ServerError default_request) True s
   | Read_failed msg \<Rightarrow> error_handler (server_error env msg ServerError default_request) True s)"

definition on_data_read :: "'f session_env \<Rightarrow> 'db otl \<Rightarrow> read_result \<Rightarrow> string_request_t \<Rightarrow> 'db se_handler" where
  "on_data_read env otl ec request s = (case ec of
     End_of_stream \<Rightarrow> shutdown_socket s
   | Body_limit msg \<Rightarrow> error_handler (server_error env msg ServerError default_request) True s
   | Read_failed msg \<Rightarrow> error_handler (server_error env msg ServerError default_request) True s
   | Read_ok \<Rightarrow> (if se_request_parser s then handle_requests env otl request s else raise Undefined_behaviour))"

fun se_handle :: "'f session_env \<Rightarrow> 'db otl \<Rightarrow> se_event \<Rightarrow> 'db se_handler" where
  "se_handle env otl (Se_header_read ec content_type) = on_header_read env ec content_type"
| "se_handle env otl (Se_data_read ec request) = on_data_read env otl ec request"
| "se_handle env otl (Se_written ec) = on_data_written ec"
| "se_handle env otl Se_written_close = shutdown_socket"

fun se_op_of :: "se_event \<Rightarrow> se_op option" where
  "se_op_of (Se_header_read _ _) = Some Se_read_header"
| "se_op_of (Se_data_read _ _) = Some Se_read"
| "se_op_of (Se_written _) = Some Se_write"
| "se_op_of Se_written_close = Some Se_write_close"

text \<open>Construction followed by \<open>run()\<close>.\<close>

definition se_launch :: "'db \<Rightarrow> 'db se_conf res" where
  "se_launch db = rbind (new_session db) (\<lambda>s. ok (conf_of (session_run s) (conf_init s)))"

abbreviation se_exec :: "'f session_env \<Rightarrow> 'db otl \<Rightarrow> se_event list \<Rightarrow> 'db se_conf \<Rightarrow> 'db se_conf option" where
  "se_exec env otl \<equiv> run_events se_op_of (\<lambda>_ _. True) (se_handle env otl)"

lemmas se_defs = http_read_data_def session_run_def shutdown_socket_def error_handler_def
  send_response_def on_data_written_def index_page_handler_def on_header_read_def on_data_read_def

section \<open>Routing\<close>

definition the_endpoints :: endpoint_t where
  "the_endpoints = [''/'' \<mapsto> \<lparr>num_verbs = 1, verbs = [Verb_get, Verb_unknown, Verb_unknown],
       route_callback = Index_page_handler\<rparr>,
     ''/upload'' \<mapsto> \<lparr>num_verbs = 1, verbs = [Verb_post, Verb_unknown, Verb_unknown],
       route_callback = Upload_handler\<rparr>]"

lemma endpoints_added: "add_endpoint_interfaces Map.empty = ok the_endpoints"
  by (simp add: add_endpoint_interfaces_def add_endpoint_def make_rule_def emplace_def the_endpoints_def
      numeral_eq_Suc fun_eq_iff)

lemma new_session_endpoints: "new_session db = Inr s \<Longrightarrow> se_endpoints s = the_endpoints"
  by (auto simp: new_session_def endpoints_added)

definition path_of :: "string \<Rightarrow> string" where
  "path_of t = takeWhile (\<lambda>c. c \<noteq> CHR ''?'') t"

lemma path_of_piece: "CHR ''?'' \<notin> set p \<Longrightarrow> path_of p = p" "CHR ''?'' \<notin> set p \<Longrightarrow> path_of (p @ CHR ''?'' # r) = p"
  by (induction p) (auto simp: path_of_def)

lemma sublist_char: "sublist [c] p \<longleftrightarrow> c \<in> set p"
  by (auto simp: sublist_def in_set_conv_decomp)

lemma split_path:
  "\<exists>pieces. split_string_view t ''?'' = ok pieces \<and> pieces \<noteq> [] \<and> pieces ! 0 = path_of t"
proof -
  from split_string_view_spec [of "''?''" t] obtain ps where ps: "split_string_view t ''?'' = ok ps"
    "ps \<noteq> []" "split_spec ''?'' t ps" by auto
  then obtain p rest where p: "ps = p # rest" by (cases ps) auto
  with ps(3) have no: "CHR ''?'' \<notin> set p" by (simp add: split_spec_def sublist_char)
  have "t = p \<or> (\<exists>r. t = p @ CHR ''?'' # r)"
    using ps(3) p by (cases rest) (auto simp: split_spec_def)
  with path_of_piece [OF no] ps p show ?thesis by auto
qed

lemma routes:
  assumes "se_endpoints s = the_endpoints" "decode_url (rq_target request) = ok t"
  shows "handle_requests env otl request s =
    (if t = [] \<or> path_of t = ''/'' \<and> rq_method request = Verb_get then index_page_handler env request s
     else if path_of t = ''/upload'' \<and> rq_method request = Verb_post then upload_handler env otl request s
     else if path_of t \<in> {''/'', ''/upload''} then error_handler (method_not_allowed env request) False s
     else error_handler (not_found env request) False s)"
proof -
  obtain pieces where p: "split_string_view t ''?'' = ok pieces" "pieces ! 0 = path_of t"
    using split_path by blast
  obtain q where q: "split_optional_queries (if 1 < length pieces then pieces ! 1 else []) = ok q"
    using split_optional_queries_total by blast
  from assms p q show ?thesis
    by (simp add: handle_requests_def get_rules_def the_endpoints_def)
qed

section \<open>The read-respond loop\<close>

fun responses :: "se_out list \<Rightarrow> string_response_t list" where
  "responses [] = []"
| "responses (Responded r # os) = r # responses os"
| "responses (_ # os) = responses os"

lemma responses_append [simp]: "responses (xs @ ys) = responses xs @ responses ys"
  by (induction xs rule: responses.induct) auto

text \<open>The events that call for a response.\<close>

fun demands_response :: "se_event \<Rightarrow> bool" where
  "demands_response (Se_header_read (Body_limit _) _) = True"
| "demands_response (Se_header_read (Read_failed _) _) = True"
| "demands_response (Se_data_read Read_ok _) = True"
| "demands_response (Se_data_read (Body_limit _) _) = True"
| "demands_response (Se_data_read (Read_failed _) _) = True"
| "demands_response _ = False"

fun truncated_escape :: "se_event \<Rightarrow> bool" where
  "truncated_escape (Se_data_read Read_ok request) = (\<not> well_escaped (rq_target request))"
| "truncated_escape _ = False"

fun se_stage :: "'db session \<Rightarrow> se_op list \<Rightarrow> bool" where
  "se_stage s [] = True"
| "se_stage s [Se_read_header] = se_header_parser s"
| "se_stage s [Se_read] = se_request_parser s"
| "se_stage s [_] = True"
| "se_stage s _ = False"

text \<open>What a handler for a request does: it starts the write of one response.\<close>

definition responds :: "('db session \<times> (se_op, se_out) action list) res \<Rightarrow> bool" where
  "responds r \<longleftrightarrow> (\<exists>s as. r = Inr (s, as) \<and> started as = [Se_write] \<and> length (responses (emitted as)) = 1
     \<and> se_endpoints s = the_endpoints)"

lemma respondsI: "responds (Inr (s, as)) \<longleftrightarrow> started as = [Se_write] \<and> length (responses (emitted as)) = 1
    \<and> se_endpoints s = the_endpoints"
  by (simp add: responds_def)

lemma error_handler_responds:
  "se_endpoints s = the_endpoints \<Longrightarrow> responds (error_handler r False s)"
  by (simp add: respondsI error_handler_def)

lemma upload_responds:
  "se_endpoints s = the_endpoints \<Longrightarrow> responds (upload_handler env otl request s)"
  by (auto simp: upload_handler_def error_handler_responds emit_then_def send_response_def respondsI
      split: sum.split prod.split)

lemma handle_requests_cases:
  assumes "se_endpoints s = the_endpoints"
  shows "if well_escaped (rq_target request) then responds (handle_requests env otl request s)
    else handle_requests env otl request s = raise Undefined_behaviour"
proof (cases "well_escaped (rq_target request)")
  case True
  then obtain t where t: "decode_url (rq_target request) = ok t" using decode_url_total by blast
  from routes [OF assms t, of env otl] True assms show ?thesis
    by (simp add: index_page_handler_def error_handler_responds upload_responds)
next
  case False
  then show ?thesis using decode_url_overrun by (simp add: handle_requests_def)
qed

definition se_inv :: "'db se_conf \<Rightarrow> se_event list \<Rightarrow> 'db se_conf \<Rightarrow> bool" where
  "se_inv c0 evs c \<longleftrightarrow> se_endpoints (obj c) = the_endpoints \<and> (case fault c of
     None \<Rightarrow> se_stage (obj c) (pend c)
       \<and> length (responses (outs c)) = length (filter demands_response evs)
   | Some e \<Rightarrow> e = Undefined_behaviour \<and> evs \<noteq> [] \<and> truncated_escape (last evs))"

lemma se_stage_single: "se_stage s ps \<Longrightarrow> p \<in> set ps \<Longrightarrow> ps = [p]"
  by (cases "(s, ps)" rule: se_stage.cases) auto

lemma se_inv_start: "\<exists>db. Inr c = se_launch db \<Longrightarrow> se_inv c [] c"
proof -
  assume "\<exists>db. Inr c = se_launch db"
  then obtain db where d: "Inr c = se_launch db" by blast
  moreover obtain s where s: "new_session db = Inr s" by (auto simp: new_session_def endpoints_added)
  ultimately have "c = conf_of (session_run s) (conf_init s)" by (simp add: se_launch_def)
  with new_session_endpoints [OF s] show "se_inv c [] c"
    by (simp add: se_inv_def se_defs conf_of_def conf_init_def)
qed

lemma data_read_step:
  assumes inv: "se_inv c0 evs c" and p: "pend c = [Se_read]" "fault c = None"
  shows "se_inv c0 (evs @ [Se_data_read ec request])
    (happen se_op_of (se_handle env otl) (Se_data_read ec request) c)"
proof (cases "ec = Read_ok")
  case True
  have ep: "se_endpoints (obj c) = the_endpoints" using inv by (simp add: se_inv_def)
  have h: "se_handle env otl (Se_data_read ec request) (obj c) = handle_requests env otl request (obj c)"
    using inv p True by (simp add: se_inv_def on_data_read_def)
  show ?thesis
  proof (cases "well_escaped (rq_target request)")
    case True
    with handle_requests_cases [OF ep, of request env otl] obtain s as where
      "handle_requests env otl request (obj c) = Inr (s, as)" "started as = [Se_write]"
      "length (responses (emitted as)) = 1" "se_endpoints s = the_endpoints" by (auto simp: responds_def)
    with h p inv \<open>ec = Read_ok\<close> show ?thesis by (simp add: se_inv_def happen_def conf_of_def Let_def)
  next
    case False
    with handle_requests_cases [OF ep, of request env otl] h p inv \<open>ec = Read_ok\<close> show ?thesis
      by (simp add: se_inv_def happen_def conf_of_def Let_def)
  qed
next
  case False
  with inv p show ?thesis
    by (cases ec) (auto simp: se_inv_def happen_def conf_of_def Let_def se_defs)
qed

lemma se_inv_step:
  assumes inv: "se_inv c0 evs c" and ev: "can_happen se_op_of (\<lambda>_ _. True) ev c"
  shows "se_inv c0 (evs @ [ev]) (happen se_op_of (se_handle env otl) ev c)"
proof -
  obtain p where p: "se_op_of ev = Some p" by (cases ev) auto
  from inv ev have ok: "fault c = None" "se_stage (obj c) (pend c)" by (auto simp: se_inv_def can_happen_def)
  from completes_only [OF ev p se_stage_single [OF ok(2)]] have ps: "pend c = [p]" .
  show ?thesis
  proof (cases ev)
    case (Se_data_read ec request)
    with data_read_step [OF inv _ ok(1)] ps p show ?thesis by simp
  next
    case (Se_header_read ec content_type)
    with ps p ok inv show ?thesis
      by (cases ec) (auto simp: se_inv_def happen_def conf_of_def Let_def se_defs)
  next
    case (Se_written ec)
    with ps p ok inv show ?thesis
      by (cases ec) (auto simp: se_inv_def happen_def conf_of_def Let_def se_defs)
  next
    case Se_written_close
    with ps p ok inv show ?thesis by (auto simp: se_inv_def happen_def conf_of_def Let_def se_defs)
  qed
qed

interpretation se: checked_client se_op_of "\<lambda>_ _. True" "se_handle env otl"
  "\<lambda>c. \<exists>db. Inr c = se_launch db" se_inv
  "\<lambda>_ evs e. e = Undefined_behaviour \<and> evs \<noteq> [] \<and> truncated_escape (last evs)"
  for env :: "'f session_env" and otl :: "'db otl"
  by unfold_locales (erule se_inv_start, erule (1) se_inv_step, simp add: se_inv_def)

lemma se_reached:
  "se_exec env otl evs c0 = Some c \<Longrightarrow> se_launch db = Inr c0 \<Longrightarrow> se_inv c0 evs c"
  by (rule se.inv_run, assumption, intro exI, erule sym)

section \<open>Uploads\<close>

lemma upload_loop_accounts:
  "upload_loop otl js hosts errs db = (Inr (hosts', errs'), db') \<Longrightarrow>
   \<exists>hs. rmap host_of_json js = ok hs
     \<and> mset (map api_key hosts') + mset errs' = mset (map api_key hosts) + mset errs + mset (map api_key hs)"
proof (induction js arbitrary: hosts errs db)
  case (Cons j js)
  then obtain h where h: "host_of_json j = Inr h" by (cases "host_of_json j") auto
  obtain stored db1 where a: "add_new_host otl h db = (stored, db1)" by fastforce
  from Cons.prems h a
  have "upload_loop otl js (if stored then hosts @ [h] else hosts)
      (if stored then errs else errs @ [api_key h]) db1 = (Inr (hosts', errs'), db')" by (cases stored) auto
  from Cons.IH [OF this] obtain hs where "rmap host_of_json js = ok hs"
    "mset (map api_key hosts') + mset errs' = mset (map api_key (if stored then hosts @ [h] else hosts))
      + mset (if stored then errs else errs @ [api_key h]) + mset (map api_key hs)" by blast
  with h show ?case by (intro exI [of _ "h # hs"]) (auto simp: ac_simps)
qed simp

lemma upload_loop_prefix:
  assumes "rmap host_of_json js = ok hs" "host_of_json j = Inl e"
  shows "upload_loop otl (js @ j # rest) hosts errs db
    = (Inl e, fold (\<lambda>h db. snd (add_new_host otl h db)) hs db)"
  using assms
proof (induction js arbitrary: hs hosts errs db)
  case (Cons x xs)
  then show ?case by (auto simp: res_simps split: prod.split)
qed auto

section \<open>Properties\<close>

text \<open>
  C25. The routes: a request whose target decodes to \<open>t\<close> gets the index page for \<open>/\<close> (or an empty
  target) with GET, is an upload for \<open>/upload\<close> with POST, is refused with 405 for any other method on
  these paths, and with 404 elsewhere; the query never changes the route.
\<close>

theorem session_routes:
  assumes "new_session db = ok s0" "se_endpoints s = se_endpoints s0"
    and "decode_url (rq_target request) = ok t"
  shows "handle_requests env otl request s =
    (if t = [] \<or> path_of t = ''/'' \<and> rq_method request = Verb_get then index_page_handler env request s
     else if path_of t = ''/upload'' \<and> rq_method request = Verb_post then upload_handler env otl request s
     else if path_of t \<in> {''/'', ''/upload''} then error_handler (method_not_allowed env request) False s
     else error_handler (not_found env request) False s)"
  by (rule routes [OF _ assms(3)]) (simp add: assms(2) new_session_endpoints [OF assms(1)])

definition text_env :: "int session_env" where
  "text_env = \<lparr>sv_parse = (\<lambda>s. if s = ''null'' then Some (J_array [J_null]) else None),
     sv_dump = (\<lambda>j. case j of J_object m \<Rightarrow>
       (case map_of m ''message'' of Some (J_string s) \<Rightarrow> s | _ \<Rightarrow> []) | _ \<Rightarrow> ''json'')\<rparr>"

definition list_otl :: "string list otl" where
  "list_otl = \<lparr>direct_exec = (\<lambda>stmt db. Some (db @ [stmt])), select_hosts = (\<lambda>_. []),
     select_chats = (\<lambda>_. []), rlogon = (\<lambda>_ db. Some db), logoff = (\<lambda>db. db)\<rparr>"

definition get_request :: "string \<Rightarrow> string_request_t" where
  "get_request target = \<lparr>rq_method = Verb_get, rq_target = target, rq_version = 11,
     rq_keep_alive = True, rq_body = []\<rparr>"

theorem session_routes_witness:
  "\<exists>s0. new_session [] = ok s0 \<and> handle_requests text_env list_otl (get_request ''/upload?x=1'') s0
     = error_handler (method_not_allowed text_env (get_request ''/upload?x=1'')) False s0"
proof -
  obtain s0 where s0: "new_session ([] :: string list) = ok s0" by (auto simp: new_session_def endpoints_added)
  have "decode_url (rq_target (get_request ''/upload?x=1'')) = ok ''/upload?x=1''"
    by (simp add: get_request_def)
  from session_routes [OF s0 refl this, of text_env list_otl] s0 show ?thesis
    by (intro exI [of _ s0]) (simp add: get_request_def path_of_def)
qed

text \<open>
  C10. A session answers every request and every failed read with exactly one response, in turn: never
  are two operations in flight, the responses are as many as the reads that call for one, and the
  only undefined behaviour is a request target that ends inside a percent escape.
\<close>

theorem session_answers_once:
  assumes "se_launch db = ok c0" "se_exec env otl evs c0 = Some c"
  shows "(case fault c of
      None \<Rightarrow> length (responses (outs c)) = length (filter demands_response evs) \<and> length (pend c) \<le> 1
    | Some e \<Rightarrow> e = Undefined_behaviour \<and> evs \<noteq> [] \<and> truncated_escape (last evs))"
proof -
  from se_reached [OF assms(2,1)] have "se_inv c0 evs c" .
  moreover have "se_stage s ps \<Longrightarrow> length ps \<le> 1" for s :: "'a session" and ps
    by (cases "(s, ps)" rule: se_stage.cases) auto
  ultimately show ?thesis by (auto simp: se_inv_def split: option.splits)
qed

lemma launched:
  "\<exists>s. new_session db = ok s \<and> se_launch db = ok (conf_of (session_run s) (conf_init s))
    \<and> se_endpoints s = the_endpoints \<and> se_db s = db \<and> se_open s"
  by (auto simp: se_launch_def new_session_def endpoints_added)

lemma get_root: "se_endpoints s = the_endpoints \<Longrightarrow>
    handle_requests env otl (get_request ''/'') s = index_page_handler env (get_request ''/'') s"
  using routes [of s "get_request ''/''" "''/''" env otl] by (simp add: get_request_def path_of_def)

definition root_run :: "string option \<Rightarrow> se_event list" where
  "root_run ec = [Se_header_read Read_ok [], Se_data_read Read_ok (get_request ''/''), Se_written ec]"

lemma get_root_run:
  assumes "se_launch db = ok c0"
  shows "\<exists>c. se_exec env otl (root_run ec) c0 = Some c
     \<and> fault c = None \<and> pend c = (if ec = None then [Se_read_header] else []) \<and> \<not> is_closed (obj c)"
proof -
  obtain s where s: "se_launch db = ok (conf_of (session_run s) (conf_init s))"
    "se_endpoints s = the_endpoints" "se_open s" using launched [of db] by blast
  with assms have c0: "c0 = conf_of (session_run s) (conf_init s)" by simp
  show ?thesis unfolding c0 root_run_def
    by (cases ec) (simp_all add: s se_defs async_defs Let_def get_root is_closed_def)
qed

theorem session_answers_once_witness:
  "\<exists>c :: string list se_conf. length (responses (outs c)) = 1 \<and> length (pend c) \<le> 1"
proof -
  obtain c0 :: "string list se_conf" where c0: "se_launch [] = ok c0" using launched [of "[] :: string list"] by blast
  from get_root_run [OF c0, of text_env list_otl None] obtain c where c: "se_exec text_env list_otl
    (root_run None) c0 = Some c" "fault c = None" by blast
  from session_answers_once [OF c0 c(1)] c(2) show ?thesis
    by (intro exI [of _ c]) (simp add: root_run_def)
qed

text \<open>
  A session whose write failed stays open with nothing in flight: \<open>is_closed()\<close> is false for ever,
  so the server never drops it.
\<close>

theorem failed_write_leaks_session:
  assumes "se_launch db = ok c0"
  shows "\<exists>c. se_exec env otl (root_run (Some err)) c0 = Some c \<and> pend c = [] \<and> \<not> is_closed (obj c)"
  using get_root_run [OF assms, of env otl "Some err"] by auto

theorem failed_write_leaks_session_witness:
  "\<exists>c :: string list se_conf. pend c = [] \<and> \<not> is_closed (obj c)"
proof -
  obtain c0 :: "string list se_conf" where "se_launch [] = ok c0" using launched [of "[] :: string list"] by blast
  from failed_write_leaks_session [OF this, of text_env list_otl "''broken pipe''"] show ?thesis by blast
qed


definition example_account :: "int json" where
  "example_account = J_object [(''api_key'', J_string ''k''), (''secret_key'', J_string ''s''),
     (''alias'', J_string ''a''), (''tg_group'', J_string ''g'')]"

definition example_host_info :: host_info_t where
  "example_host_info = \<lparr>account_alias = ''a'', api_key = ''k'', secret_key = ''s'', tg_group_name = ''g'',
     changes = no_changes\<rparr>"

lemma example_account_host: "host_of_json example_account = ok example_host_info"
  by (simp add: host_of_json_def example_account_def example_host_info_def json_get_defs)

lemma list_otl_stores: "add_new_host list_otl h db = (True, db @ [add_new_host_sql h])"
  by (simp add: add_new_host_def list_otl_def)


text \<open>
  A request with an invalid account after valid ones is answered with 400, yet the valid ones have
  already been stored in the database, without being queued.
\<close>

theorem invalid_upload_stores_prefix:
  assumes "sv_parse env (rq_body request) = Some (J_array (js @ j # rest))"
    and "rmap host_of_json js = ok hs" "host_of_json j = Inl e"
  shows "upload_handler env otl request s =
      error_handler (bad_request env ''JSON object is invalid'' request) False
        (s\<lparr>se_db := fold (\<lambda>h db. snd (add_new_host otl h db)) hs (se_db s)\<rparr>)"
  using upload_loop_prefix [OF assms(2,3), of otl rest "[]" "[]" "se_db s"] assms(1)
  by (simp add: upload_handler_def parse_json_def get_array_def)

theorem invalid_upload_stores_prefix_witness:
  "\<exists>(s :: string list session) s' as. upload_handler
      (text_env\<lparr>sv_parse := (\<lambda>_. Some (J_array [example_account, J_null]))\<rparr>) list_otl (get_request []) s
      = ok (s', as) \<and> length (se_db s) = 0 \<and> length (se_db s') = 1"
proof -
  obtain s :: "string list session" where s: "se_db s = []" using launched [of "[] :: string list"] by blast
  let ?env = "text_env\<lparr>sv_parse := (\<lambda>_. Some (J_array [example_account, J_null]))\<rparr>"
  let ?h = example_host_info
  have p: "sv_parse ?env (rq_body (get_request [])) = Some (J_array ([example_account] @ J_null # []))" by simp
  have v: "rmap host_of_json [example_account] = ok [?h]" by (simp add: example_account_host)
  have i: "host_of_json (J_null :: int json) = Inl Json_type_error"
    by (simp add: host_of_json_def json_get_defs)
  have a: "snd (add_new_host list_otl ?h []) = [add_new_host_sql ?h]" by (simp add: list_otl_stores)
  from invalid_upload_stores_prefix [OF p v i, of list_otl s]
  have "upload_handler ?env list_otl (get_request []) s = error_handler
    (bad_request ?env ''JSON object is invalid'' (get_request [])) False (s\<lparr>se_db := [add_new_host_sql ?h]\<rparr>)"
    by (simp add: s a)
  then show ?thesis unfolding error_handler_def
    by (intro exI [of _ s] exI conjI) (assumption, simp_all add: s)
qed

end
