(* ===== verification/Server.thy ===== *)
theory Server
  imports Session
begin

text \<open>
  binance_orders/src/server.cpp: \<open>server_t\<close> accepts connections one after another and keeps a list of
  sessions, from which it removes the closed ones when it has grown beyond twenty.
\<close>

section \<open>State and operations\<close>

record command_line_interface_t =
  port :: nat
  ip_address :: string
  launch_type :: string
  database_config_filename :: string

definition default_arguments :: command_line_interface_t where
  "default_arguments = \<lparr>port = 3421, ip_address = ''127.0.0.1'', launch_type = ''development'',
     database_config_filename = ''../config/info.json''\<rparr>"

text \<open>
  \<open>sv_db\<close> is the database that all sessions reach through the one connector: a session works on the
  database of the moment and leaves its changes to the others.
\<close>

record 'db server =
  is_open :: bool
  sessions :: "'db se_conf list"
  sv_db :: 'db

datatype sv_op = Sv_accept

text \<open>The hosts that a session appends to the host container are an output.\<close>

datatype sv_out = Sv_log string | Sv_queued "host_info_t list"

text \<open>\<open>Sv_session i\<close> is an event of the session at position \<open>i\<close>, \<open>Sv_database\<close> a change of the database by
  another thread.\<close>

datatype 'db sv_event =
    Sv_accepted "string option"
  | Sv_session nat se_event
  | Sv_database 'db

type_synonym 'db sv_handler = "('db server, sv_op, sv_out) handler"
type_synonym 'db sv_conf = "('db server, sv_op, sv_out) conf"

text \<open>The constructor: each step of opening the acceptor may fail, and ends it.\<close>

definition new_server :: "string option list \<Rightarrow> 'db \<Rightarrow> 'db server \<times> sv_out list" where
  "new_server steps db = (case find_index (\<lambda>ec. ec \<noteq> None) steps of
     Some i \<Rightarrow> (\<lparr>is_open = False, sessions = [], sv_db = db\<rparr>, [Sv_log (the (steps ! i))])
   | None \<Rightarrow> (\<lparr>is_open = True, sessions = [], sv_db = db\<rparr>, []))"

definition accept_connections :: "'db sv_handler" where
  "accept_connections s = ok (s, [Start Sv_accept])"

definition server_run :: "'db sv_handler" where
  "server_run s = (if is_open s then accept_connections s else ok (s, []))"

definition prune :: "'db se_conf list \<Rightarrow> 'db se_conf list" where
  "prune cs = (if 20 < length cs then filter (\<lambda>c. \<not> is_closed (obj c)) cs else cs)"

definition on_connection_accepted :: "string option \<Rightarrow> 'db sv_handler" where
  "on_connection_accepted ec s = (case ec of
     Some msg \<Rightarrow> emit_then (Sv_log msg) accept_connections s
   | None \<Rightarrow> rbind (se_launch (sv_db s)) (\<lambda>c.
       accept_connections (s\<lparr>sessions := prune (sessions s) @ [c]\<rparr>)))"

definition with_db :: "'db \<Rightarrow> 'db se_conf \<Rightarrow> 'db se_conf" where
  "with_db db c = c\<lparr>obj := (obj c)\<lparr>se_db := db\<rparr>\<rparr>"

fun queued_hosts :: "se_out list \<Rightarrow> sv_out list" where
  "queued_hosts [] = []"
| "queued_hosts (Hosts_queued hosts # os) = Sv_queued hosts # queued_hosts os"
| "queued_hosts (_ # os) = queued_hosts os"

text \<open>An error that escapes from the handler of a session leaves \<open>io_context::run\<close>.\<close>

definition session_event :: "'f session_env \<Rightarrow> 'db otl \<Rightarrow> nat \<Rightarrow> se_event \<Rightarrow> 'db sv_handler" where
  "session_event env otl i ev s =
     (let c = happen se_op_of (se_handle env otl) ev (with_db (sv_db s) (sessions s ! i)) in
     case fault c of Some e \<Rightarrow> raise e
     | None \<Rightarrow> ok (s\<lparr>sessions := (sessions s)[i := c], sv_db := se_db (obj c)\<rparr>,
         map Emit (queued_hosts (drop (length (outs (sessions s ! i))) (outs c)))))"

fun sv_handle :: "'f session_env \<Rightarrow> 'db otl \<Rightarrow> 'db sv_event \<Rightarrow> 'db sv_handler" where
  "sv_handle env otl (Sv_accepted ec) = on_connection_accepted ec"
| "sv_handle env otl (Sv_session i ev) = session_event env otl i ev"
| "sv_handle env otl (Sv_database db) = (\<lambda>s. ok (s\<lparr>sv_db := db\<rparr>, []))"

fun sv_op_of :: "'db sv_event \<Rightarrow> sv_op option" where
  "sv_op_of (Sv_accepted _) = Some Sv_accept"
| "sv_op_of (Sv_session _ _) = None"
| "sv_op_of (Sv_database _) = None"

fun sv_enabled :: "'db sv_conf \<Rightarrow> 'db sv_event \<Rightarrow> bool" where
  "sv_enabled c (Sv_session i ev) \<longleftrightarrow> i < length (sessions (obj c))
     \<and> can_happen se_op_of (\<lambda>_ _. True) ev (sessions (obj c) ! i)"
| "sv_enabled c _ = True"

definition sv_launch :: "string option list \<Rightarrow> 'db \<Rightarrow> 'db sv_conf" where
  "sv_launch steps db = conf_of (server_run (fst (new_server steps db))) (conf_init (fst (new_server steps db)))"

abbreviation sv_exec :: "'f session_env \<Rightarrow> 'db otl \<Rightarrow> 'db sv_event list \<Rightarrow> 'db sv_conf \<Rightarrow> 'db sv_conf option" where
  "sv_exec env otl \<equiv> run_events sv_op_of sv_enabled (sv_handle env otl)"

lemmas sv_defs = accept_connections_def server_run_def on_connection_accepted_def session_event_def
  sv_launch_def

section \<open>The invariant\<close>

text \<open>Each session of the list keeps its invariant, and one accept is in flight.\<close>

definition session_sound :: "'db se_conf \<Rightarrow> bool" where
  "session_sound c \<longleftrightarrow> (\<exists>c0 evs. se_inv c0 evs c)"

fun truncated_target :: "'db sv_event \<Rightarrow> bool" where
  "truncated_target (Sv_session i ev) = truncated_escape ev"
| "truncated_target _ = False"

definition sv_inv :: "'db sv_conf \<Rightarrow> 'db sv_event list \<Rightarrow> 'db sv_conf \<Rightarrow> bool" where
  "sv_inv c0 evs c \<longleftrightarrow> pend c = (if is_open (obj c) then [Sv_accept] else [])
     \<and> is_open (obj c) = is_open (obj c0) \<and> (\<forall>s\<in>set (sessions (obj c)). session_sound s)
     \<and> (case fault c of None \<Rightarrow> True
        | Some e \<Rightarrow> e = Undefined_behaviour \<and> evs \<noteq> [] \<and> truncated_target (last evs))"

lemma sv_inv_start:
  assumes "\<exists>steps db. c = sv_launch steps db"
  shows "sv_inv c [] c"
proof -
  from assms obtain steps db where "c = sv_launch steps db" by blast
  then show ?thesis
    by (cases "find_index (\<lambda>ec. ec \<noteq> None) steps")
      (simp_all add: sv_inv_def sv_defs async_defs new_server_def)
qed

lemma se_stage_db: "se_stage (s\<lparr>se_db := db\<rparr>) ps = se_stage s ps"
  by (cases "(s, ps)" rule: se_stage.cases) auto

lemma se_inv_db: "se_inv c0 evs (with_db db c) = se_inv c0 evs c"
  by (simp add: se_inv_def with_db_def se_stage_db split: option.split)

lemma can_happen_db: "can_happen se_op_of (\<lambda>_ _. True) ev (with_db db c) = can_happen se_op_of (\<lambda>_ _. True) ev c"
  by (simp add: can_happen_def with_db_def split: option.split)

lemma session_sound_step:
  assumes "session_sound c" "can_happen se_op_of (\<lambda>_ _. True) ev c"
  shows "session_sound (happen se_op_of (se_handle env otl) ev (with_db db c))"
    and "fault (happen se_op_of (se_handle env otl) ev (with_db db c)) = Some e \<Longrightarrow>
      e = Undefined_behaviour \<and> truncated_escape ev"
proof -
  let ?c = "happen se_op_of (se_handle env otl) ev (with_db db c)"
  from assms(1) obtain c0 evs where "se_inv c0 evs (with_db db c)" by (auto simp: session_sound_def se_inv_db)
  from se_inv_step [OF this] assms(2) have inv: "se_inv c0 (evs @ [ev]) ?c" by (simp add: can_happen_db)
  then show "session_sound ?c" unfolding session_sound_def by blast
  from inv show "fault ?c = Some e \<Longrightarrow> e = Undefined_behaviour \<and> truncated_escape ev"
    by (simp add: se_inv_def)
qed

lemma conf_of_ok: "conf_of (ok (s, as)) c =
    c\<lparr>obj := s, pend := pend c @ started as, outs := outs c @ emitted as\<rparr>"
  and conf_of_raise: "conf_of (raise e) c = c\<lparr>fault := Some e\<rparr>"
  by (simp_all add: conf_of_def)

lemma session_sound_start: "se_launch db = Inr c \<Longrightarrow> session_sound c"
  unfolding session_sound_def by (intro exI, rule se_inv_start, intro exI, erule sym)

lemma prune_subset: "set (prune cs) \<subseteq> set cs"
  by (auto simp: prune_def)

lemma started_emits [simp]: "started (map Emit ms) = []" "emitted (map Emit ms) = ms"
  by (induction ms) simp_all

lemma sv_inv_step:
  assumes inv: "sv_inv c0 evs c" and ev: "can_happen sv_op_of sv_enabled ev c"
  shows "sv_inv c0 (evs @ [ev]) (happen sv_op_of (sv_handle env otl) ev c)"
proof (cases ev)
  case (Sv_accepted ec)
  with ev inv have c: "pend c = [Sv_accept]" "is_open (obj c)" "fault c = None"
    by (auto simp: can_happen_def sv_inv_def split: if_splits)
  show ?thesis
  proof (cases ec)
    case None
    obtain s where s: "se_launch (sv_db (obj c)) = Inr s" using launched [of "sv_db (obj c)"] by blast
    from c Sv_accepted None s inv session_sound_start [OF s] prune_subset [of "sessions (obj c)"]
    show ?thesis by (auto simp: sv_inv_def happen_def conf_of_def sv_defs Let_def)
  next
    case (Some msg)
    with Sv_accepted c inv show ?thesis
      by (auto simp: sv_inv_def happen_def conf_of_def sv_defs emit_then_def Let_def)
  qed
next
  case (Sv_session i e)
  with ev have i: "i < length (sessions (obj c))" "can_happen se_op_of (\<lambda>_ _. True) e (sessions (obj c) ! i)"
    by (auto simp: can_happen_def)
  with inv have r: "session_sound (sessions (obj c) ! i)" by (simp add: sv_inv_def)
  let ?c = "happen se_op_of (se_handle env otl) e (with_db (sv_db (obj c)) (sessions (obj c) ! i))"
  show ?thesis
  proof (cases "fault ?c")
    case None
    with session_sound_step(1) [OF r i(2)] inv Sv_session ev show ?thesis
      by (auto simp: sv_inv_def happen_def [of sv_op_of] conf_of_ok session_event_def Let_def
          can_happen_def [of sv_op_of] dest!: set_update_subset_insert [THEN subsetD])
  next
    case (Some x)
    with session_sound_step(2) [OF r i(2) Some] inv Sv_session show ?thesis
      by (simp add: sv_inv_def happen_def [of sv_op_of] conf_of_raise session_event_def Let_def)
  qed
next
  case (Sv_database db)
  with inv ev show ?thesis by (simp add: sv_inv_def happen_def conf_of_ok can_happen_def)
qed

interpretation sv: checked_client sv_op_of sv_enabled "sv_handle env otl"
  "\<lambda>c. \<exists>steps db. c = sv_launch steps db" sv_inv
  "\<lambda>_ evs e. e = Undefined_behaviour \<and> evs \<noteq> [] \<and> truncated_target (last evs)"
  for env :: "'f session_env" and otl :: "'db otl"
  by unfold_locales (erule sv_inv_start, erule (1) sv_inv_step, simp add: sv_inv_def)

lemma sv_reached:
  "sv_exec env otl evs (sv_launch steps db) = Some c \<Longrightarrow> sv_inv (sv_launch steps db) evs c"
  by (rule sv.inv_run, assumption, intro exI, rule refl)

section \<open>Properties\<close>



text \<open>
  Accepting a connection never drops an open session, and bounds the list: it holds at most
  twenty-one sessions, or one more than there are open ones.
\<close>

theorem accept_prunes_closed:
  assumes "on_connection_accepted None s = ok (s', as)"
  shows "length (sessions s') \<le> max 21 (Suc (length (filter (\<lambda>c. \<not> is_closed (obj c)) (sessions s))))
    \<and> filter (\<lambda>c. \<not> is_closed (obj c)) (sessions s)
      = filter (\<lambda>c. \<not> is_closed (obj c)) (butlast (sessions s'))"
  using assms by (auto simp: on_connection_accepted_def accept_connections_def prune_def res_simps)

theorem accept_prunes_closed_witness:
  "\<exists>s' as. on_connection_accepted None \<lparr>is_open = True, sessions = [], sv_db = [] :: string list\<rparr> = ok (s', as)
    \<and> length (sessions s') \<le> 21"
proof -
  obtain c :: "string list se_conf" where "se_launch [] = Inr c" using launched [of "[] :: string list"] by blast
  then have h: "on_connection_accepted None \<lparr>is_open = True, sessions = [], sv_db = []\<rparr>
      = ok (\<lparr>is_open = True, sessions = [c], sv_db = []\<rparr>, [Start Sv_accept])"
    by (simp add: on_connection_accepted_def accept_connections_def prune_def)
  from accept_prunes_closed [OF h] h show ?thesis by simp
qed

end
