(* ===== verification/Startup.thy ===== *)
theory Startup
  imports Server Host_Monitor Telegram
begin

text \<open>
  binance_orders/main.cpp: the configuration, the database connection and the acceptor are set up in
  this order, each failure ending the program, then the threads are started.
\<close>

section \<open>main\<close>

text \<open>The parts of the running program; \<open>worker_threads\<close> counts the threads that run the shared
  \<open>io_context\<close>, the main thread included.\<close>

record 'db orders_program =
  BOT_TOKEN :: string
  database_connector :: "'db database_connector_t"
  server_instance :: "'db sv_conf"
  host_monitorer :: monitor_sys
  order_monitorer :: "'db saver"
  worker_threads :: nat

datatype 'db main_outcome =
    Exit_failure
  | Terminated cpp_error
  | Running "'db orders_program"

definition reserved_thread_count :: "nat \<Rightarrow> nat" where
  "reserved_thread_count thread_count = (if 3 < thread_count then thread_count - 3 else thread_count)"

text \<open>
  \<open>launch_previous_hosts\<close> runs the \<open>io_context\<close> itself when there are hosts, so that main stays in it
  and the pool of threads is started only when there are none.
\<close>

definition running_threads :: "host_info_t list \<Rightarrow> nat \<Rightarrow> nat" where
  "running_threads previous_hosts thread_count =
     (if previous_hosts \<noteq> [] then 1 else reserved_thread_count thread_count + 1)"

definition configured :: "db_config_t \<Rightarrow> 'db \<Rightarrow> 'db database_connector_t" where
  "configured software_config db = set_database_name (db_dns software_config)
     (set_password (db_password software_config)
     (set_username (db_username software_config) (new_connector db)))"

definition orders_main :: "'f tg_env \<Rightarrow> 'db otl \<Rightarrow> (string \<Rightarrow> string option) \<Rightarrow> command_line_interface_t \<Rightarrow>
    string option list \<Rightarrow> nat \<Rightarrow> cu_event list \<Rightarrow> 'db \<Rightarrow> 'db main_outcome" where
  "orders_main env otl read_file args acceptor_steps thread_count net db =
     (case parse_config_file (t_parse env) (read_file (database_config_filename args)) (launch_type args) of
        None \<Rightarrow> Exit_failure
      | Some software_config \<Rightarrow>
          (case connect otl (configured software_config db) of
             Inl e \<Rightarrow> Terminated e
           | Inr (connected, connector) \<Rightarrow>
               if \<not> connected then Exit_failure
               else if \<not> is_open (fst (new_server acceptor_steps (otl_connector connector))) then Exit_failure
               else let db' = otl_connector connector;
                        env' = env\<lparr>t_token := bot_token software_config\<rparr> in
                 Running \<lparr>BOT_TOKEN = bot_token software_config, database_connector = connector,
                   server_instance = sv_launch acceptor_steps db',
                   host_monitorer = monitor_init otl db',
                   order_monitorer = saver_init env' otl net db',
                   worker_threads = running_threads (get_available_hosts otl db') thread_count\<rparr>))"

lemma new_server_open: "is_open (fst (new_server steps db)) \<longleftrightarrow> list_all (\<lambda>ec. ec = None) steps"
  by (cases "find_index (\<lambda>ec. ec \<noteq> None) steps")
    (auto simp: new_server_def list_all_iff find_index_None dest!: find_index_Some nth_mem split: option.split)

lemma connect_configured:
  "connect otl (configured cfg db) =
     (if db_username cfg = [] \<and> db_password cfg = [] \<and> db_dns cfg = []
      then raise (Runtime_error ''configuration incomplete'')
      else case rlogon otl (db_username cfg @ ''/'' @ db_password cfg @ ''@'' @ db_dns cfg) db of
        None \<Rightarrow> ok (False, configured cfg db)
      | Some db' \<Rightarrow> ok (True, (configured cfg db)\<lparr>otl_connector := db', keeper_thread := True, is_running := True\<rparr>))"
  by (auto simp: connect_def configured_def set_database_name_def set_password_def set_username_def
      new_connector_def db_config_set_def login_str_def split: option.split)

section \<open>Properties\<close>


text \<open>
  The thread pool of a machine with several processors is started only when the hosts table is
  empty: otherwise the main thread alone runs the \<open>io_context\<close>, inside \<open>launch_previous_hosts\<close>.
\<close>

theorem pool_only_without_hosts:
  assumes "orders_main env otl read_file args steps tc net db = Running p"
  shows "worker_threads p = (if websocks (watchers (host_monitorer p)) = [] then reserved_thread_count tc + 1 else 1)"
  using assms
  by (auto simp: orders_main_def running_threads_def monitor_init_def launch_previous_hosts_def
      launch_websocket_listeners_def Let_def split: option.splits sum.splits prod.splits if_splits)

definition config_env :: "int tg_env" where
  "config_env = \<lparr>t_parse = (\<lambda>s. Some (J_object
      [(''database'', J_array [J_object [(''type'', J_string ''development''), (''data'', J_object
         [(''username'', J_string ''u''), (''password'', J_string ''p''), (''db_dns'', J_string ''d'')])]]),
       (''bot_token'', J_string ''T'')])), t_doubles = whole_doubles, t_token = []\<rparr>"

lemma config_read:
  "parse_config_file (t_parse config_env) (Some text) ''development''
    = Some \<lparr>db_username = ''u'', db_password = ''p'', db_dns = ''d'', bot_token = ''T''\<rparr>"
  by (simp add: config_env_def parse_config_file_def read_object_json_file_def read_json_file_def
      parse_json_def json_get_defs read_config_def)

theorem pool_only_without_hosts_witness:
  "\<exists>p. orders_main config_env table_otl (\<lambda>_. Some []) default_arguments [None, None, None, None] 8 []
      [row_a, row_b] = Running p \<and> worker_threads p = 1"
proof -
  have "launch_type default_arguments = ''development''" by (simp add: default_arguments_def)
  moreover have "rlogon table_otl l db = Some db" for l db by (simp add: table_otl_def)
  ultimately obtain p where p: "orders_main config_env table_otl (\<lambda>_. Some []) default_arguments
      [None, None, None, None] 8 [] [row_a, row_b] = Running p"
      "websocks (watchers (host_monitorer p)) \<noteq> []"
    by (simp add: orders_main_def config_read connect_configured new_server_open table_hosts
        monitor_init_def launch_previous_hosts_def launch_websocket_listeners_def Let_def)
  from pool_only_without_hosts [OF p(1)] p show ?thesis by auto
qed

end
