(* ===== verification/Orders_Program.thy ===== *)
theory Orders_Program
  imports Startup User_Stream_Renewals
begin

text \<open>
  The running binance_orders program: the web server, the monitor and launcher of the hosts, the user
  data streams, the saver thread and its senders, and the thread that keeps the database busy, all on
  one database and two containers. A step is a completion handler or one iteration of a thread; any
  interleaving of the steps is a run. The program ends when an error escapes from a step.
\<close>

section \<open>State\<close>

record 'f program_env =
  stream_env :: "'f uds_env"
  telegram_env :: "'f tg_env"
  web_env :: "'f session_env"

text \<open>
  The parts that \<open>main\<close> sets up, with the stream container of \<open>request_handler_t\<close>. \<open>stream_items\<close> records
  what the streams appended to it, \<open>destroyed\<close> the streams whose destructor has run, of which only
  handlers of keep-alive objects can still run; \<open>terminated\<close> is an error of a destructor or of the thread that keeps the connection busy.
\<close>

record 'db running_program = "'db orders_program" +
  stream_container :: "user_stream_result_t waitable_container_t"
  stream_items :: "user_stream_result_t list"
  destroyed :: "uds_conf list"
  terminated :: "cpp_error option"

datatype program_event =
    Accepted "string option"
  | Request nat se_event
  | Stream nat uds_event
  | Detached_stream nat uds_event
  | Destroy_stream nat "string option"
  | Destroyed_stream nat uds_event
  | Poll_hosts
  | Launch_host
  | Save_order "cu_event list"
  | Sender nat tg_event
  | Keep_busy

definition program_db :: "'db running_program \<Rightarrow> 'db" where
  "program_db p = otl_connector (database_connector p)"

definition set_db :: "'db \<Rightarrow> 'db running_program \<Rightarrow> 'db running_program" where
  "set_db db p = p\<lparr>database_connector := (database_connector p)\<lparr>otl_connector := db\<rparr>\<rparr>"

definition streams :: "'db running_program \<Rightarrow> uds_conf list" where
  "streams p = websocks (watchers (host_monitorer p)) @ detached (watchers (host_monitorer p)) @ destroyed p"

text \<open>No error has escaped so far.\<close>

definition running :: "'db running_program \<Rightarrow> bool" where
  "running p \<longleftrightarrow> terminated p = None \<and> fault (server_instance p) = None
     \<and> list_all (\<lambda>c. fault c = None) (streams p)
     \<and> list_all (\<lambda>c. fault c = None) (message_senders (order_monitorer p))"

section \<open>The steps\<close>

fun hosts_queued :: "sv_out list \<Rightarrow> host_info_t list" where
  "hosts_queued [] = []"
| "hosts_queued (Sv_queued hosts # os) = hosts @ hosts_queued os"
| "hosts_queued (_ # os) = hosts_queued os"

definition server_event :: "'f program_env \<Rightarrow> 'db otl \<Rightarrow> 'db sv_event \<Rightarrow> 'db running_program \<Rightarrow> 'db running_program" where
  "server_event env otl ev p =
     (let c = happen sv_op_of (sv_handle (web_env env) otl) (Sv_database (program_db p)) (server_instance p) in
      if can_happen sv_op_of sv_enabled ev c
      then let c' = happen sv_op_of (sv_handle (web_env env) otl) ev c;
               hosts = hosts_queued (drop (length (outs c)) (outs c')) in
        set_db (sv_db (obj c')) (p\<lparr>server_instance := c',
          host_monitorer := monitor_step (stream_env env) otl (Uploaded hosts) (host_monitorer p)\<rparr>)
      else p)"

text \<open>The events of the network: \<open>stop\<close> and the change of the group are calls of the launcher.\<close>

definition from_network :: "uds_event \<Rightarrow> bool" where
  "from_network ev = (case ev of U_stop \<Rightarrow> False | U_set_tg_group _ \<Rightarrow> False | _ \<Rightarrow> True)"

definition stream_step :: "'f uds_env \<Rightarrow> nat \<Rightarrow> uds_event \<Rightarrow> uds_conf list \<Rightarrow> uds_conf list \<times> user_stream_result_t list" where
  "stream_step env i ev cs =
     (if i < length cs \<and> from_network ev \<and> can_happen uds_op_of uds_enabled ev (cs ! i)
      then let c' = happen uds_op_of (uds_handle env) ev (cs ! i) in
        (cs[i := c'], items_of (drop (length (outs (cs ! i))) (outs c')))
      else (cs, []))"

text \<open>
  The destructor of a stream runs when neither the launcher nor a handler in flight nor its control
  callback holds it. It is \<open>noexcept\<close>: an exception of \<open>close\<close> ends the program.
\<close>

definition destroy_stream :: "nat \<Rightarrow> string option \<Rightarrow> 'db running_program \<Rightarrow> 'db running_program" where
  "destroy_stream i cl p =
     (let w = watchers (host_monitorer p) in
      if i < length (detached w) \<and> \<not> held (detached w ! i)
      then case uds_destroy cl (obj (detached w ! i)) of
          Inl e \<Rightarrow> p\<lparr>terminated := Some e\<rparr>
        | Inr s \<Rightarrow> p\<lparr>host_monitorer := (host_monitorer p)\<lparr>watchers := w\<lparr>detached := erase_at i (detached w)\<rparr>\<rparr>,
            destroyed := (detached w ! i)\<lparr>obj := s\<rparr> # destroyed p\<rparr>
      else p)"

definition deliver :: "launcher \<Rightarrow> user_stream_result_t list \<Rightarrow> 'db running_program \<Rightarrow> 'db running_program" where
  "deliver w new_items p = p\<lparr>host_monitorer := (host_monitorer p)\<lparr>watchers := w\<rparr>,
     stream_container := append_list new_items (stream_container p), stream_items := stream_items p @ new_items\<rparr>"

text \<open>An iteration of \<open>persistent_orders_saver\<close>, which does nothing while \<open>get\<close> blocks.\<close>

definition persistent_orders_saver ::
  "'f program_env \<Rightarrow> 'db otl \<Rightarrow> cu_event list \<Rightarrow> 'db running_program \<Rightarrow> 'db running_program" where
  "persistent_orders_saver env otl net p =
     (case consumer_loop get (saver_step ((telegram_env env)\<lparr>t_token := BOT_TOKEN p\<rparr>) otl net) 1
        (stream_container p) ((order_monitorer p)\<lparr>saver_db := program_db p\<rparr>) of
        (q, s) \<Rightarrow> set_db (saver_db s) (p\<lparr>stream_container := q, order_monitorer := s\<rparr>))"

definition sender_step :: "string \<Rightarrow> nat \<Rightarrow> tg_event \<Rightarrow> tg_conf list \<Rightarrow> tg_conf list" where
  "sender_step token i ev cs =
     (if i < length cs \<and> tg_op_of ev \<noteq> None \<and> can_happen tg_op_of (\<lambda>_ _. True) ev (cs ! i)
      then cs[i := happen tg_op_of (tg_handle token) ev (cs ! i)] else cs)"

fun program_handle :: "'f program_env \<Rightarrow> 'db otl \<Rightarrow> program_event \<Rightarrow> 'db running_program \<Rightarrow> 'db running_program" where
  "program_handle env otl (Accepted ec) p = server_event env otl (Sv_accepted ec) p"
| "program_handle env otl (Request i ev) p = server_event env otl (Sv_session i ev) p"
| "program_handle env otl (Stream i ev) p =
     (let w = watchers (host_monitorer p) in
      case stream_step (stream_env env) i ev (websocks w) of
        (cs, new_items) \<Rightarrow> deliver (w\<lparr>websocks := cs\<rparr>) new_items p)"
| "program_handle env otl (Detached_stream i ev) p =
     (let w = watchers (host_monitorer p) in
      case stream_step (stream_env env) i ev (detached w) of
        (cs, new_items) \<Rightarrow> deliver (w\<lparr>detached := cs\<rparr>) new_items p)"
| "program_handle env otl (Destroy_stream i cl) p = destroy_stream i cl p"
| "program_handle env otl (Destroyed_stream i ev) p =
     (case stream_step (stream_env env) i ev (destroyed p) of
        (cs, new_items) \<Rightarrow> deliver (watchers (host_monitorer p)) new_items (p\<lparr>destroyed := cs\<rparr>))"
| "program_handle env otl Poll_hosts p =
     p\<lparr>host_monitorer := monitor_step (stream_env env) otl (Poll (program_db p)) (host_monitorer p)\<rparr>"
| "program_handle env otl Launch_host p =
     p\<lparr>host_monitorer := monitor_step (stream_env env) otl Launcher_step (host_monitorer p)\<rparr>"
| "program_handle env otl (Save_order net) p = persistent_orders_saver env otl net p"
| "program_handle env otl (Sender i ev) p =
     (let s = order_monitorer p in
      p\<lparr>order_monitorer := s\<lparr>message_senders := sender_step (BOT_TOKEN p) i ev (message_senders s)\<rparr>\<rparr>)"
| "program_handle env otl Keep_busy p =
     (case keep_sql_server_busy otl (database_connector p) of
        Inl e \<Rightarrow> p\<lparr>terminated := Some e\<rparr>
      | Inr connector \<Rightarrow> p\<lparr>database_connector := connector\<rparr>)"

definition program_step :: "'f program_env \<Rightarrow> 'db otl \<Rightarrow> program_event \<Rightarrow> 'db running_program \<Rightarrow> 'db running_program" where
  "program_step env otl ev p = (if running p then program_handle env otl ev p else p)"

text \<open>The start: the saver thread has executed its first statements on the database of \<open>main\<close>.\<close>

definition program_start :: "'db orders_program \<Rightarrow> 'db running_program" where
  "program_start r = \<lparr>BOT_TOKEN = BOT_TOKEN r,
     database_connector = (database_connector r)\<lparr>otl_connector := saver_db (order_monitorer r)\<rparr>,
     server_instance = server_instance r, host_monitorer = host_monitorer r,
     order_monitorer = order_monitorer r, worker_threads = worker_threads r,
     stream_container = waitable_empty, stream_items = [], destroyed = [], terminated = None\<rparr>"

definition program_run :: "'f program_env \<Rightarrow> 'db otl \<Rightarrow> program_event list \<Rightarrow> 'db orders_program \<Rightarrow> 'db running_program" where
  "program_run env otl evs r = fold (program_step env otl) evs (program_start r)"

lemmas program_simps = program_db_def set_db_def streams_def deliver_def

lemma program_run_snoc: "program_run env otl (evs @ [ev]) r = program_step env otl ev (program_run env otl evs r)"
  by (simp add: program_run_def)

text \<open>An invariant of the steps of a running program holds in every run.\<close>

lemma program_invariant:
  assumes "P (program_start r)"
    and "\<And>ev p. P p \<Longrightarrow> running p \<Longrightarrow> P (program_handle env otl ev p)"
  shows "P (program_run env otl evs r)"
  by (induction evs rule: rev_induct)
    (use assms in \<open>simp_all add: program_run_snoc program_step_def\<close>, simp add: program_run_def)

section \<open>From the sockets to the database\<close>

lemma stored_host_rows:
  "logs_all otl stmts \<Longrightarrow> add_new_host otl h db = (b, db') \<Longrightarrow> rows stmts db' = rows stmts db"
  using logged_rows [of otl stmts "add_new_host_sql h" db]
  by (auto simp: add_new_host_def exec_logged_def split: option.splits)

lemma upload_loop_rows:
  "logs_all otl stmts \<Longrightarrow> upload_loop otl items hosts errs db = (r, db') \<Longrightarrow> rows stmts db' = rows stmts db"
proof (induction items arbitrary: hosts errs db)
  case (Cons j items)
  then show ?case
    by (auto split: sum.splits prod.splits if_splits dest: stored_host_rows)
qed simp

text \<open>A handler of a session stores hosts, but no rows.\<close>

lemma handle_requests_db:
  assumes "handle_requests env otl request s = Inr (s', as)"
  shows "se_db s' = se_db s \<or> upload_handler env otl request s = Inr (s', as)"
proof -
  have page: "se_db s' = se_db s" if "error_handler r b s = Inr (s', as)" for r b
    using that by (auto simp: error_handler_def)
  from assms obtain t where "decode_url (rq_target request) = ok t" by (auto simp: handle_requests_def res_simps)
  moreover obtain ps where "split_string_view t ''?'' = ok ps" using split_path by blast
  moreover obtain q where "split_optional_queries (if 1 < length ps then ps ! 1 else []) = ok q"
    using split_optional_queries_total by blast
  ultimately show ?thesis
    using assms page
    by (cases "get_rules (ps ! 0) (se_endpoints s)"; cases "route_callback (the (get_rules (ps ! 0) (se_endpoints s)))")
      (auto simp: handle_requests_def index_page_handler_def split: if_split_asm)
qed

lemma session_rows:
  assumes "logs_all otl stmts" "se_handle env otl ev s = Inr (s', as)"
  shows "rows stmts (se_db s') = rows stmts (se_db s)"
proof -
  have "rows stmts (se_db s') = rows stmts (se_db s)"
    if "upload_handler env otl request s = Inr (s', as)" for request
    using that upload_loop_rows [OF assms(1)]
    by (auto simp: upload_handler_def error_handler_def emit_then_def send_response_def res_simps
        split: sum.splits prod.splits)
  then have "rows stmts (se_db s') = rows stmts (se_db s)"
    if "handle_requests env otl request s = Inr (s', as)" for request
    using handle_requests_db [OF that] by auto
  with assms(2) show ?thesis
    by (cases ev) (auto simp: http_read_data_def shutdown_socket_def error_handler_def on_data_written_def
        on_header_read_def on_data_read_def split: read_result.splits option.splits if_splits)
qed

lemma session_event_rows:
  assumes "logs_all otl stmts" "session_event env otl i ev s = Inr (s', as)"
  shows "rows stmts (sv_db s') = rows stmts (sv_db s)"
proof -
  let ?c = "with_db (sv_db s) (sessions s ! i)"
  have "se_db (obj ?c) = sv_db s" by (simp add: with_db_def)
  with assms(2) session_rows [OF assms(1), of env ev "obj ?c"] show ?thesis
    by (cases "se_handle env otl ev (obj ?c)")
      (auto simp: session_event_def happen_def conf_of_def Let_def split: option.splits)
qed

lemma accept_rows: "on_connection_accepted ec s = Inr (s', as) \<Longrightarrow> sv_db s' = sv_db s"
  by (auto simp: on_connection_accepted_def emit_then_def accept_connections_def res_simps split: option.splits)

lemma server_rows:
  assumes "logs_all otl stmts" "sv_handle env otl ev s = Inr (s', as)" "\<forall>db. ev \<noteq> Sv_database db"
  shows "rows stmts (sv_db s') = rows stmts (sv_db s)"
  using assms(2,3) by (cases ev) (auto dest: accept_rows session_event_rows [OF assms(1)])

lemma server_event_rows:
  assumes "logs_all otl stmts" "\<forall>db. ev \<noteq> Sv_database db"
  shows "rows stmts (program_db (server_event env otl ev p)) = rows stmts (program_db p)"
proof -
  let ?c = "happen sv_op_of (sv_handle (web_env env) otl) (Sv_database (program_db p)) (server_instance p)"
  have "sv_db (obj ?c) = program_db p" by (simp add: happen_def conf_of_def)
  with server_rows [OF assms(1) _ assms(2), of "web_env env" "obj ?c"] show ?thesis
    by (cases "sv_handle (web_env env) otl ev (obj ?c)")
      (auto simp: server_event_def happen_def [of sv_op_of _ ev] conf_of_def Let_def program_simps split: option.splits)
qed

lemma server_event_frame [simp]:
  "stream_container (server_event env otl ev p) = stream_container p"
  "stream_items (server_event env otl ev p) = stream_items p"
  "order_monitorer (server_event env otl ev p) = order_monitorer p"
  "streams (server_event env otl ev p) = streams p"
  by (simp_all add: server_event_def Let_def program_simps)

text \<open>The items that a list of streams has put out.\<close>

definition items_out :: "uds_conf list \<Rightarrow> user_stream_result_t multiset" where
  "items_out cs = (\<Sum>c\<in>#mset cs. mset (items_of (outs c)))"

lemma items_out_simps [simp]:
  "items_out [] = {#}" "items_out (c # cs) = mset (items_of (outs c)) + items_out cs"
  "items_out (cs @ cs') = items_out cs + items_out cs'"
  by (simp_all add: items_out_def)

lemma items_out_update:
  assumes "i < length cs" "items_of (outs c) = items_of (outs (cs ! i)) @ xs"
  shows "items_out (cs[i := c]) = items_out cs + mset xs"
  using assms by (induction cs arbitrary: i) (auto split: nat.split)

lemma items_out_erase:
  "i < length cs \<Longrightarrow> items_out cs = items_out (erase_at i cs) + mset (items_of (outs (cs ! i)))"
  unfolding erase_at_def
  by (subst id_take_nth_drop [of i cs]) (simp_all add: ac_simps min_def)

lemma uds_happen_outs: "\<exists>os. outs (happen uds_op_of (uds_handle env) ev c) = outs c @ os"
  by (cases "uds_handle env ev (obj c)") (auto simp: happen_def conf_of_def split: option.split)

lemma stream_step_items:
  assumes "stream_step env i ev cs = (cs', xs)"
  shows "items_out cs' = items_out cs + mset xs"
proof (cases "i < length cs \<and> from_network ev \<and> can_happen uds_op_of uds_enabled ev (cs ! i)")
  case True
  obtain os where "outs (happen uds_op_of (uds_handle env) ev (cs ! i)) = outs (cs ! i) @ os"
    using uds_happen_outs [of env ev "cs ! i"] by blast
  with True assms show ?thesis by (auto simp: stream_step_def Let_def intro!: items_out_update)
next
  case False
  with assms show ?thesis by (auto simp: stream_step_def)
qed

lemma launcher_calls_items [simp]:
  "items_of (outs (uds_launch host)) = []"
  "items_of (outs (happen uds_op_of (uds_handle env) U_stop c)) = items_of (outs c)"
  "items_of (outs (happen uds_op_of (uds_handle env) (U_set_tg_group g) c)) = items_of (outs c)"
  by (simp_all add: uds_launch_def uds_defs new_uds_def async_defs Let_def split: option.split)

lemma process_items:
  "items_out (websocks (process_host_changes env host w) @ detached (process_host_changes env host w))
     = items_out (websocks w @ detached w)"
proof (cases "find_index (\<lambda>c. same_host host (conf_host c)) (websocks w)")
  case None
  then show ?thesis by (simp add: process_host_changes_def)
next
  case (Some i)
  then have "i < length (websocks w)" using find_index_Some by fastforce
  with Some items_out_erase [OF this] items_out_update [OF this, where xs = "[]"] show ?thesis
    by (simp add: process_host_changes_def ac_simps)
qed

lemma launch_items:
  "items_out (websocks (fold (process_host_changes env) hosts w) @ detached (fold (process_host_changes env) hosts w))
     = items_out (websocks w @ detached w)"
  by (induction hosts arbitrary: w) (simp_all add: process_items del: items_out_simps)

lemma launcher_watchers:
  "watchers (websock_launcher env n m)
     = fold (process_host_changes env) (take n (m_container (host_container m))) (watchers m)"
  using wc.consumer_loop_fold [of "process_host_changes env" n "host_container m" "watchers m"]
  by (auto simp: websock_launcher_def split: prod.split)

text \<open>
  The rows stored, followed by those of the items still queued, are those of all items produced; and
  what was produced is what the streams put out.
\<close>

definition rows_inv :: "('db \<Rightarrow> string list) \<Rightarrow> string list \<Rightarrow> 'db running_program \<Rightarrow> bool" where
  "rows_inv stmts rows0 p \<longleftrightarrow>
     rows stmts (program_db p) @ concat (map row_of (m_container (stream_container p)))
       = rows0 @ concat (map row_of (stream_items p))
     \<and> tables_ok (order_monitorer p) \<and> mset (stream_items p) = items_out (streams p)"

lemma deliver_rows_destroyed:
  assumes "rows_inv stmts rows0 p" "items_out (websocks w @ detached w @ cs) = items_out (streams p) + mset xs"
  shows "rows_inv stmts rows0 (deliver w xs (p\<lparr>destroyed := cs\<rparr>))"
  using assms by (simp add: rows_inv_def program_simps append_list_def flip: append_assoc)

lemma deliver_rows:
  assumes "rows_inv stmts rows0 p" "items_out (websocks w @ detached w @ destroyed p) = items_out (streams p) + mset xs"
  shows "rows_inv stmts rows0 (deliver w xs p)"
  using deliver_rows_destroyed [OF assms] by simp

lemma save_rows:
  assumes "logs_all otl stmts" "rows_inv stmts rows0 p"
  shows "rows_inv stmts rows0 (persistent_orders_saver env otl net p)"
proof -
  let ?env = "(telegram_env env)\<lparr>t_token := BOT_TOKEN p\<rparr>"
  let ?s = "(order_monitorer p)\<lparr>saver_db := program_db p\<rparr>"
  let ?r = "consumer_loop get (saver_step ?env otl net) 1 (stream_container p) ?s"
  let ?q = "m_container (stream_container p)"
  have t: "tables_ok ?s" using assms(2) by (simp add: rows_inv_def tables_ok_def)
  from wc.consumer_loop_fold [of "saver_step ?env otl net" 1 "stream_container p" ?s]
  have r: "snd ?r = fold (saver_step ?env otl net) (take 1 ?q) ?s" "m_container (fst ?r) = drop 1 ?q" by auto
  from saver_rows [OF assms(1) t, of ?env net "take 1 ?q"]
  have "rows stmts (saver_db (snd ?r)) = rows stmts (program_db p) @ concat (map row_of (take 1 ?q))"
    unfolding r(1) by simp
  moreover have "tables_ok (snd ?r)" unfolding r(1)
    using t by (cases ?q) (simp_all add: saver_step_rows [OF assms(1) t])
  moreover have "concat (map row_of (take 1 ?q)) @ concat (map row_of (drop 1 ?q)) = concat (map row_of ?q)"
    by (cases ?q) simp_all
  ultimately show ?thesis using assms(2) r(2)
    by (cases ?r) (simp add: rows_inv_def persistent_orders_saver_def program_simps)
qed

lemma rows_inv_step:
  assumes "logs_all otl stmts" "rows_inv stmts rows0 p"
  shows "rows_inv stmts rows0 (program_handle env otl ev p)"
proof (cases ev)
  case (Accepted ec)
  with assms server_event_rows [OF assms(1), of "Sv_accepted ec" env p] show ?thesis by (simp add: rows_inv_def)
next
  case (Request i e)
  with assms server_event_rows [OF assms(1), of "Sv_session i e" env p] show ?thesis by (simp add: rows_inv_def)
next
  case (Stream i e)
  then show ?thesis
    by (auto simp: Let_def streams_def ac_simps split: prod.split dest!: stream_step_items intro!: deliver_rows [OF assms(2)])
next
  case (Detached_stream i e)
  then show ?thesis
    by (auto simp: Let_def streams_def ac_simps split: prod.split dest!: stream_step_items intro!: deliver_rows [OF assms(2)])
next
  case (Destroyed_stream i e)
  obtain cs xs where st: "stream_step (stream_env env) i e (destroyed p) = (cs, xs)" by fastforce
  from stream_step_items [OF this] have "items_out (websocks (watchers (host_monitorer p))
      @ detached (watchers (host_monitorer p)) @ cs) = items_out (streams p) + mset xs"
    by (simp add: streams_def ac_simps)
  from deliver_rows_destroyed [OF assms(2) this] Destroyed_stream st show ?thesis by simp
next
  case (Destroy_stream i cl)
  have "items_out (streams (destroy_stream i cl p)) = items_out (streams p)"
    using items_out_erase [of i "detached (watchers (host_monitorer p))"]
    by (auto simp: destroy_stream_def streams_def Let_def ac_simps split: sum.split)
  moreover have "program_db (destroy_stream i cl p) = program_db p" "stream_container (destroy_stream i cl p) = stream_container p"
    "stream_items (destroy_stream i cl p) = stream_items p" "order_monitorer (destroy_stream i cl p) = order_monitorer p"
    by (simp_all add: destroy_stream_def Let_def program_db_def split: sum.split)
  ultimately show ?thesis using assms(2) Destroy_stream by (simp add: rows_inv_def)
next
  case Poll_hosts
  with assms(2) show ?thesis by (simp add: rows_inv_def program_simps split: prod.split)
next
  case Launch_host
  have "items_out (streams (program_handle env otl Launch_host p)) = items_out (streams p)"
    using launch_items [of "stream_env env" "take 1 (m_container (host_container (host_monitorer p)))"]
    by (simp add: streams_def launcher_watchers flip: add.assoc)
  with assms(2) Launch_host show ?thesis by (simp add: rows_inv_def program_db_def)
next
  case (Save_order net)
  with save_rows [OF assms] show ?thesis by simp
next
  case (Sender i e)
  with assms(2) show ?thesis by (simp add: rows_inv_def program_simps tables_ok_def Let_def)
next
  case Keep_busy
  from assms(1) obtain db where "direct_exec otl ''select 1'' (program_db p) = Some db"
    "stmts db = stmts (program_db p) @ [''select 1'']" unfolding logs_all_def by blast
  with Keep_busy assms(2) show ?thesis
    by (simp add: rows_inv_def keep_sql_server_busy_def program_simps rows_def is_row_def)
qed

lemma main_start:
  assumes "orders_main env otl read_file args steps tc net db = Running r"
  shows "host_monitorer r = monitor_init otl (otl_connector (database_connector r))"
    and "order_monitorer r = saver_init (env\<lparr>t_token := BOT_TOKEN r\<rparr>) otl net (otl_connector (database_connector r))"
    and "server_instance r = sv_launch steps (otl_connector (database_connector r))"
  using assms
  by (auto simp: orders_main_def Let_def split: option.splits sum.splits prod.splits if_splits)

lemma started_items [simp]: "items_out (map uds_launch hosts) = {#}"
  by (induction hosts) simp_all

lemma rows_inv_start:
  assumes "logs_all otl stmts" "orders_main env otl read_file args steps tc net db = Running r"
  shows "rows_inv stmts (rows stmts (otl_connector (database_connector r))) (program_start r)"
proof -
  let ?db = "otl_connector (database_connector r)"
  from main_start(1,2) [OF assms(2)] saver_init_rows [OF assms(1), of "env\<lparr>t_token := BOT_TOKEN r\<rparr>" net ?db]
  show ?thesis
    by (simp add: rows_inv_def program_start_def program_simps waitable_empty_def monitor_init_def
        launch_previous_hosts_def launch_websocket_listeners_def)
qed

section \<open>The streams and the hosts table\<close>

lemma hosts_queued_append [simp]: "hosts_queued (xs @ ys) = hosts_queued xs @ hosts_queued ys"
  by (induction xs rule: hosts_queued.induct) auto

lemma sv_happen_outs: "\<exists>os. outs (happen sv_op_of (sv_handle env otl) ev c) = outs c @ os"
  by (cases "sv_handle env otl ev (obj c)") (auto simp: happen_def conf_of_def split: option.split)

lemma network_keeps_host:
  assumes "from_network ev" "can_happen uds_op_of uds_enabled ev c"
  shows "conf_host (happen uds_op_of (uds_handle env) ev c) = conf_host c"
proof (cases "uds_handle env ev (obj c)")
  case (Inl e)
  then show ?thesis by (simp add: conf_host_def happen_def conf_of_def split: option.split)
next
  case (Inr r)
  with assms(2) have "fault (happen uds_op_of (uds_handle env) ev c) = None"
    by (cases r) (auto simp: happen_def conf_of_def can_happen_def split: option.split)
  from uds_handle_items(2) [OF assms(2) this] assms(1) show ?thesis
    by (simp add: conf_host_def host_after_def from_network_def split: uds_event.splits)
qed

lemma stream_step_hosts:
  assumes "stream_step env i ev cs = (cs', xs)"
  shows "map conf_host cs' = map conf_host cs"
proof (cases "i < length cs \<and> from_network ev \<and> can_happen uds_op_of uds_enabled ev (cs ! i)")
  case True
  with network_keeps_host [of ev "cs ! i" env]
  have "(map conf_host cs)[i := conf_host (happen uds_op_of (uds_handle env) ev (cs ! i))] = map conf_host cs"
    by (metis list_update_id nth_map)
  with True assms show ?thesis by (auto simp: stream_step_def Let_def map_update)
next
  case False
  with assms show ?thesis by (auto simp: stream_step_def)
qed

text \<open>Without uploads the monitor's view, and what the launcher makes of it, agree.\<close>

definition hosts_inv :: "'db running_program \<Rightarrow> bool" where
  "hosts_inv p \<longleftrightarrow> (hosts_queued (outs (server_instance p)) = [] \<longrightarrow> synced (host_monitorer p))"

lemma synced_cong:
  assumes "previous m' = previous m" "m_container (host_container m') = m_container (host_container m)"
    and "watched m' = watched m"
  shows "synced m' = synced m"
  using assms by (simp add: synced_def target_def)

lemma server_hosts:
  assumes "hosts_inv p"
  shows "hosts_inv (server_event env otl ev p)"
proof -
  let ?h = "happen sv_op_of (sv_handle (web_env env) otl)"
  let ?c = "?h (Sv_database (program_db p)) (server_instance p)"
  have c: "outs ?c = outs (server_instance p)" by (simp add: happen_def conf_of_def)
  obtain os where os: "outs (?h ev ?c) = outs ?c @ os" using sv_happen_outs by blast
  let ?p = "server_event env otl ev p"
  show ?thesis
  proof (cases "can_happen sv_op_of sv_enabled ev ?c \<and> hosts_queued os = []")
    case True
    with os have "host_monitorer ?p = (host_monitorer p)\<lparr>host_container := append_list [] (host_container (host_monitorer p))\<rparr>"
      by (simp add: server_event_def Let_def set_db_def)
    then have "synced (host_monitorer ?p) = synced (host_monitorer p)"
      by (intro synced_cong) (simp_all add: append_list_def watched_def)
    with True os c assms show ?thesis by (simp add: hosts_inv_def server_event_def Let_def set_db_def)
  next
    case False
    with os c assms show ?thesis by (auto simp: hosts_inv_def server_event_def Let_def set_db_def)
  qed
qed

lemma hosts_inv_step: "hosts_inv p \<Longrightarrow> hosts_inv (program_handle env otl ev p)"
proof (cases ev)
  case (Stream i e)
  assume inv: "hosts_inv p"
  let ?w = "watchers (host_monitorer p)"
  obtain cs xs where st: "stream_step (stream_env env) i e (websocks ?w) = (cs, xs)" by fastforce
  from stream_step_hosts [OF this]
  have "synced ((host_monitorer p)\<lparr>watchers := ?w\<lparr>websocks := cs\<rparr>\<rparr>) = synced (host_monitorer p)"
    by (intro synced_cong) (simp_all add: watched_def)
  with inv Stream st show ?thesis by (simp add: hosts_inv_def deliver_def)
next
  case (Detached_stream i e)
  assume inv: "hosts_inv p"
  have "synced ((host_monitorer p)\<lparr>watchers := w\<rparr>) = synced (host_monitorer p)"
    if "websocks w = websocks (watchers (host_monitorer p))" for w
    using that by (intro synced_cong) (simp_all add: watched_def)
  with inv Detached_stream show ?thesis by (simp add: hosts_inv_def deliver_def Let_def split: prod.split)
next
  case (Destroyed_stream i e)
  assume inv: "hosts_inv p"
  have "synced ((host_monitorer p)\<lparr>watchers := w\<rparr>) = synced (host_monitorer p)"
    if "websocks w = websocks (watchers (host_monitorer p))" for w
    using that by (intro synced_cong) (simp_all add: watched_def)
  with inv Destroyed_stream show ?thesis by (simp add: hosts_inv_def deliver_def split: prod.split)
next
  case (Destroy_stream i cl)
  assume inv: "hosts_inv p"
  have "synced ((host_monitorer p)\<lparr>watchers := w\<rparr>) = synced (host_monitorer p)"
    if "websocks w = websocks (watchers (host_monitorer p))" for w
    using that by (intro synced_cong) (simp_all add: watched_def)
  with inv Destroy_stream show ?thesis by (simp add: hosts_inv_def destroy_stream_def Let_def split: sum.split)
next
  case Poll_hosts
  assume "hosts_inv p"
  with Poll_hosts show ?thesis
    using step_synced [of "host_monitorer p" "Poll (program_db p)" "stream_env env" otl]
    by (simp add: hosts_inv_def del: monitor_step.simps)
next
  case Launch_host
  assume "hosts_inv p"
  with Launch_host launcher_synced [of "host_monitorer p" "stream_env env" 1] show ?thesis by (simp add: hosts_inv_def)
qed (simp_all add: hosts_inv_def persistent_orders_saver_def set_db_def Let_def server_hosts [unfolded hosts_inv_def]
    split: prod.split sum.split)

end
