(* ===== verification/Orders_Program_Properties.thy ===== *)
theory Orders_Program_Properties
  imports Orders_Program
begin

text \<open>
  Properties of the whole binance_orders program, from \<open>main\<close> on: every part keeps the invariant of
  its component, so that the program can only end in the ways the components leave open; its orders
  reach the database; its streams follow the hosts table.
\<close>

section \<open>Every part keeps its invariant\<close>

definition uds_sound :: "'f uds_env \<Rightarrow> uds_conf \<Rightarrow> bool" where
  "uds_sound env c \<longleftrightarrow> (\<exists>c0 evs. uds_inv env c0 evs c)"

definition parts_sound :: "'f program_env \<Rightarrow> 'db running_program \<Rightarrow> bool" where
  "parts_sound env p \<longleftrightarrow> (\<forall>c\<in>set (streams p). uds_sound (stream_env env) c)
     \<and> (\<forall>c\<in>set (message_senders (order_monitorer p)). tg_sound (BOT_TOKEN p) c)
     \<and> (\<exists>c0 evs. sv_inv c0 evs (server_instance p))"

lemma uds_sound_launch [simp]: "uds_sound env (uds_launch host)"
  unfolding uds_sound_def by (intro exI, rule uds_inv_start, rule exI, rule refl)

lemma uds_sound_step:
  assumes "uds_sound env c" "can_happen uds_op_of uds_enabled ev c"
  shows "uds_sound env (happen uds_op_of (uds_handle env) ev c)"
    and "fault (happen uds_op_of (uds_handle env) ev c) = Some e \<Longrightarrow> fault_cause env (obj c) ev e"
proof -
  let ?c = "happen uds_op_of (uds_handle env) ev c"
  from assms obtain c0 evs where inv: "uds_inv env c0 (evs @ [ev]) ?c"
    unfolding uds_sound_def using uds_inv_step by blast
  then show "uds_sound env ?c" unfolding uds_sound_def by blast
  have "obj ?c = obj c" if "fault ?c = Some e"
    using that assms(2)
    by (cases "uds_handle env ev (obj c)") (auto simp: happen_def conf_of_def can_happen_def split: option.splits)
  with inv show "fault ?c = Some e \<Longrightarrow> fault_cause env (obj c) ev e" by (simp add: uds_inv_def)
qed

text \<open>The destructor leaves an object of which only the keep-alive objects matter.\<close>

lemma destroy_sound:
  assumes "uds_sound env c" "fault c = None" "\<not> held c" "uds_destroy cl (obj c) = Inr s"
  shows "uds_sound env (c\<lparr>obj := s\<rparr>)"
proof -
  from assms(1) obtain c0 evs where "uds_inv env c0 evs c" by (auto simp: uds_sound_def)
  then have ok: "renewals_ok (obj c)" "uds_ok (obj c) (pend c)" using assms(2) by (simp_all add: uds_inv_def)
  have "\<not> main_op p" if "p \<in> set (pend c)" for p
    using assms(3) that by (cases p) (auto simp: held_def list_all_iff)
  then have none: "filter (live t) (pend c) = []" "\<forall>p\<in>set (pend c). \<not> main_op p" for t
    by (auto simp: filter_empty_conv)
  from ok assms(4) reset_renewals_ok [of "obj c"] renewals_cong [of s "reset_keepalive (obj c)"]
  have "renewals_ok s" "uds_ok s (pend c)"
    by (auto simp: uds_destroy_def reset_keepalive_def uds_ok_def ids_below_def lives_ok_def none split: option.splits)
  then have "uds_inv env c0 evs (c\<lparr>obj := s\<rparr>)" using assms(2) by (simp add: uds_inv_def)
  then show ?thesis unfolding uds_sound_def by blast
qed

text \<open>The calls of the launcher, which no error leaves.\<close>

lemma launcher_call_sound:
  assumes "uds_sound env c" "fault c = None" "ev = U_stop \<or> ev = U_set_tg_group g"
  shows "uds_sound env (happen uds_op_of (uds_handle env) ev c)
    \<and> fault (happen uds_op_of (uds_handle env) ev c) = None"
proof -
  have en: "can_happen uds_op_of uds_enabled ev c" using assms(2,3) by (auto simp: can_happen_def uds_enabled_def)
  from uds_sound_step [OF assms(1) en] assms(3) show ?thesis
    by (cases "fault (happen uds_op_of (uds_handle env) ev c)") auto
qed

lemma launched_quiet [simp]: "fault (uds_launch host) = None" "fault (tg_launch p) = None"
  by (simp_all add: uds_launch_def uds_defs tg_defs async_defs)

lemma process_sound:
  assumes "\<forall>c\<in>set (websocks w @ detached w). uds_sound env c \<and> fault c = None"
  shows "\<forall>c\<in>set (websocks (process_host_changes env host w) @ detached (process_host_changes env host w)).
    uds_sound env c \<and> fault c = None"
proof (cases "find_index (\<lambda>c. same_host host (conf_host c)) (websocks w)")
  case None
  with assms show ?thesis by (simp add: process_host_changes_def)
next
  case (Some i)
  then have i: "websocks w ! i \<in> set (websocks w)" using find_index_Some by fastforce
  note call = launcher_call_sound [of env "websocks w ! i"]
  from Some i assms call [of U_stop] call [of "U_set_tg_group (tg_group_name host)" "tg_group_name host"] show ?thesis
    by (auto simp: process_host_changes_def dest!: set_erase_at [THEN subsetD] set_update_subset_insert [THEN subsetD])
qed

lemma stream_step_sound:
  assumes "stream_step env i ev cs = (cs', xs)" "\<forall>c\<in>set cs. uds_sound env c"
  shows "\<forall>c\<in>set cs'. uds_sound env c"
  using assms uds_sound_step(1) [of env "cs ! i" ev]
  by (auto simp: stream_step_def Let_def split: if_splits dest!: set_update_subset_insert [THEN subsetD])

text \<open>A message for the senders goes to one of them, or to a new one.\<close>

lemma chat_known_sound:
  assumes "\<forall>c\<in>set cs. tg_sound (t_token env) c \<and> fault c = None"
  shows "\<forall>c\<in>set (chat_known env m cs). tg_sound (t_token env) c \<and> fault c = None"
proof (cases "find_index (\<lambda>c. available_with_less_tasks (obj c)) cs")
  case None
  with assms show ?thesis by (simp add: chat_known_def)
next
  case (Some i)
  with assms have i: "tg_sound (t_token env) (cs ! i)" "fault (cs ! i) = None" using find_index_Some by fastforce+
  then have "can_happen tg_op_of (\<lambda>_ _. True) (Tg_add_payload m) (cs ! i)" by (simp add: can_happen_def)
  from tg_sound_step(1) [OF i(1) this] have "tg_sound (t_token env) (give_payload env m (cs ! i))"
    by (simp add: give_payload_def)
  moreover have "fault (give_payload env m (cs ! i)) = None"
    using i(2) by (simp add: give_payload_def add_payload_def async_defs)
  ultimately show ?thesis using Some assms
    by (auto simp: chat_known_def dest!: set_update_subset_insert [THEN subsetD])
qed

lemma saver_step_senders:
  "message_senders (saver_step env otl net item s) = message_senders s
    \<or> (\<exists>m. message_senders (saver_step env otl net item s) = chat_known env m (message_senders s))"
proof -
  have "message_senders (save_item otl item s') = message_senders s'" for s'
    by (simp add: save_item_def Let_def)
  then show ?thesis
    unfolding saver_step_def send_telegram_message_def Let_def
    by (cases "map_of (chats_id_map s) (item_group item)")
      (auto simp del: One_nat_def split: prod.split option.split)
qed

lemma launch_sound:
  assumes "\<forall>c\<in>set (websocks w @ detached w). uds_sound env c \<and> fault c = None"
  shows "\<forall>c\<in>set (websocks (fold (process_host_changes env) hosts w) @ detached (fold (process_host_changes env) hosts w)).
    uds_sound env c \<and> fault c = None"
  using assms
proof (induction hosts arbitrary: w)
  case (Cons h hosts)
  from Cons.IH [OF process_sound [OF Cons.prems]] show ?case by simp
qed simp

lemma save_sound:
  assumes "\<forall>c\<in>set (message_senders (order_monitorer p)). tg_sound (BOT_TOKEN p) c \<and> fault c = None"
  shows "\<forall>c\<in>set (message_senders (order_monitorer (persistent_orders_saver env otl net p))).
    tg_sound (BOT_TOKEN p) c \<and> fault c = None"
proof -
  let ?env = "(telegram_env env)\<lparr>t_token := BOT_TOKEN p\<rparr>"
  let ?s = "(order_monitorer p)\<lparr>saver_db := program_db p\<rparr>"
  have s: "\<forall>c\<in>set (message_senders ?s). tg_sound (t_token ?env) c \<and> fault c = None" using assms by simp
  have known: "\<forall>c\<in>set (chat_known ?env m (message_senders ?s)). tg_sound (t_token ?env) c \<and> fault c = None" for m
    by (rule chat_known_sound [OF s])
  show ?thesis
  proof (cases "get (stream_container p)")
    case None
    with assms show ?thesis by (simp add: persistent_orders_saver_def set_db_def)
  next
    case (Some r)
    obtain item q where "r = (item, q)" by (cases r)
    with Some s known saver_step_senders [of ?env otl net item ?s]
    show ?thesis by (auto simp: persistent_orders_saver_def set_db_def)
  qed
qed

lemma server_event_sound:
  assumes "\<exists>c0 evs. sv_inv c0 evs (server_instance p)" "fault (server_instance p) = None"
    and "\<forall>db. ev \<noteq> Sv_database db"
  shows "\<exists>c0 evs. sv_inv c0 evs (server_instance (server_event env otl ev p))"
    and "fault (server_instance (server_event env otl ev p)) \<noteq> None \<Longrightarrow> truncated_target ev"
proof -
  let ?h = "happen sv_op_of (sv_handle (web_env env) otl)"
  let ?c = "?h (Sv_database (program_db p)) (server_instance p)"
  from assms(1) obtain c0 evs where "sv_inv c0 evs (server_instance p)" by blast
  moreover have "can_happen sv_op_of sv_enabled (Sv_database (program_db p)) (server_instance p)"
    using assms(2) by (simp add: can_happen_def)
  ultimately have inv: "sv_inv c0 (evs @ [Sv_database (program_db p)]) ?c" by (rule sv_inv_step)
  have c: "fault ?c = None" using assms(2) by (simp add: happen_def conf_of_def)
  have "(\<exists>c0 evs. sv_inv c0 evs (server_instance (server_event env otl ev p)))
    \<and> (fault (server_instance (server_event env otl ev p)) \<noteq> None \<longrightarrow> truncated_target ev)"
  proof (cases "can_happen sv_op_of sv_enabled ev ?c")
    case True
    from sv_inv_step [OF inv this] have "sv_inv c0 ((evs @ [Sv_database (program_db p)]) @ [ev]) (?h ev ?c)" .
    then have "\<exists>c0 evs. sv_inv c0 evs (?h ev ?c)" "fault (?h ev ?c) \<noteq> None \<longrightarrow> truncated_target ev"
      unfolding sv_inv_def by (blast, simp split: option.splits)
    with True show ?thesis by (simp add: server_event_def Let_def set_db_def)
  next
    case False
    with assms(1,2) show ?thesis by (simp add: server_event_def Let_def)
  qed
  then show "\<exists>c0 evs. sv_inv c0 evs (server_instance (server_event env otl ev p))"
    and "fault (server_instance (server_event env otl ev p)) \<noteq> None \<Longrightarrow> truncated_target ev" by blast+
qed

section \<open>How the program can end\<close>

text \<open>The events that can let an error escape, with what must hold for it.\<close>

definition stream_ends :: "'f uds_env \<Rightarrow> uds_event \<Rightarrow> uds_conf \<Rightarrow> bool" where
  "stream_ends env ev c = (case ev of
     U_ws_read i ec data cl \<Rightarrow> cl \<noteq> None
   | U_control_close i cl \<Rightarrow> cl \<noteq> None
   | U_key_post \<Rightarrow> True
   | U_renewal i e \<Rightarrow> \<not> k_alive (obj (u_renewals (obj c) ! i))
   | U_ws_connected i ec p sni \<Rightarrow> e_text_at env 58 = None
   | _ \<Rightarrow> False)"

fun ends :: "'f program_env \<Rightarrow> 'db otl \<Rightarrow> program_event \<Rightarrow> 'db running_program \<Rightarrow> bool" where
  "ends env otl (Request i ev) p = truncated_escape ev"
| "ends env otl (Stream i ev) p = stream_ends (stream_env env) ev (websocks (watchers (host_monitorer p)) ! i)"
| "ends env otl (Detached_stream i ev) p = stream_ends (stream_env env) ev (detached (watchers (host_monitorer p)) ! i)"
| "ends env otl (Destroyed_stream i ev) p = stream_ends (stream_env env) ev (destroyed p ! i)"
| "ends env otl (Destroy_stream i cl) p = (cl \<noteq> None \<and> u_stream (obj (detached (watchers (host_monitorer p)) ! i)) \<noteq> None)"
| "ends env otl (Sender i ev) p = (s_payloads (obj (message_senders (order_monitorer p) ! i)) = [])"
| "ends env otl Keep_busy p = (direct_exec otl ''select 1'' (program_db p) = None
     \<and> rlogon otl (login_str (db_config (database_connector p))) (logoff otl (program_db p)) = None)"
| "ends env otl _ p = False"

lemma stream_step_ends:
  assumes "stream_step env i ev cs = (cs', xs)" "\<forall>c\<in>set cs. uds_sound env c \<and> fault c = None"
    and "\<not> list_all (\<lambda>c. fault c = None) cs'"
  shows "stream_ends env ev (cs ! i)"
proof -
  have en: "i < length cs \<and> can_happen uds_op_of uds_enabled ev (cs ! i)"
    using assms by (auto simp: stream_step_def list_all_iff split: if_splits)
  moreover from this assms obtain e where "fault (happen uds_op_of (uds_handle env) ev (cs ! i)) = Some e"
    by (auto simp: stream_step_def Let_def list_all_iff split: if_splits dest!: set_update_subset_insert [THEN subsetD])
  ultimately have "fault_cause env (obj (cs ! i)) ev e" using uds_sound_step(2) [of env "cs ! i" ev e] assms(2) by simp
  then show ?thesis by (cases "(env, obj (cs ! i), ev, e)" rule: fault_cause.cases) (auto simp: stream_ends_def)
qed

lemma running_parts:
  assumes "parts_sound env p" "running p"
  shows "\<forall>c\<in>set (websocks (watchers (host_monitorer p)) @ detached (watchers (host_monitorer p))).
      uds_sound (stream_env env) c \<and> fault c = None"
    and "\<forall>c\<in>set (message_senders (order_monitorer p)). tg_sound (BOT_TOKEN p) c \<and> fault c = None"
    and "\<exists>c0 evs. sv_inv c0 evs (server_instance p)" "fault (server_instance p) = None" "terminated p = None"
  using assms by (auto simp: parts_sound_def running_def streams_def list_all_iff)

lemma server_event_other [simp]:
  "BOT_TOKEN (server_event env otl ev p) = BOT_TOKEN p" "terminated (server_event env otl ev p) = terminated p"
  by (simp_all add: server_event_def Let_def set_db_def)

lemma program_handle_sound:
  assumes "parts_sound env p" "running p"
  shows "parts_sound env (program_handle env otl ev p)
    \<and> (\<not> running (program_handle env otl ev p) \<longrightarrow> ends env otl ev p)"
proof (cases ev)
  case (Accepted ec)
  with assms server_event_sound [OF running_parts(3,4) [OF assms], of "Sv_accepted ec" env otl] show ?thesis
    by (auto simp: parts_sound_def running_def simp del: not_None_eq)
next
  case (Request i e)
  with assms server_event_sound [OF running_parts(3,4) [OF assms], of "Sv_session i e" env otl] show ?thesis
    by (auto simp: parts_sound_def running_def)
next
  case (Stream i e)
  obtain cs xs where st: "stream_step (stream_env env) i e (websocks (watchers (host_monitorer p))) = (cs, xs)"
    by fastforce
  with assms Stream stream_step_sound [OF st] stream_step_ends [OF st] running_parts(1) [OF assms] show ?thesis
    by (auto simp: parts_sound_def running_def streams_def deliver_def)
next
  case (Detached_stream i e)
  obtain cs xs where st: "stream_step (stream_env env) i e (detached (watchers (host_monitorer p))) = (cs, xs)"
    by fastforce
  with assms Detached_stream stream_step_sound [OF st] stream_step_ends [OF st] running_parts(1) [OF assms]
  show ?thesis by (auto simp: parts_sound_def running_def streams_def deliver_def)
next
  case (Destroyed_stream i e)
  obtain cs xs where st: "stream_step (stream_env env) i e (destroyed p) = (cs, xs)" by fastforce
  from assms have "\<forall>c\<in>set (destroyed p). uds_sound (stream_env env) c \<and> fault c = None"
    by (auto simp: parts_sound_def running_def streams_def list_all_iff)
  with assms Destroyed_stream st stream_step_sound [OF st] stream_step_ends [OF st] show ?thesis
    by (auto simp: parts_sound_def running_def streams_def deliver_def)
next
  case (Destroy_stream i cl)
  let ?w = "watchers (host_monitorer p)"
  let ?c = "detached ?w ! i"
  show ?thesis
  proof (cases "i < length (detached ?w) \<and> \<not> held ?c")
    case True
    with running_parts(1) [OF assms] have c: "uds_sound (stream_env env) ?c" "fault ?c = None" by auto
    show ?thesis
    proof (cases "uds_destroy cl (obj ?c)")
      case (Inl e)
      with True Destroy_stream assms show ?thesis
        by (auto simp: parts_sound_def running_def streams_def destroy_stream_def Let_def uds_destroy_def split: option.splits)
    next
      case (Inr s)
      from destroy_sound [OF c conjunct2 [OF True] Inr] c(2) True Inr Destroy_stream assms show ?thesis
        by (auto simp: parts_sound_def running_def streams_def destroy_stream_def Let_def list_all_iff
            dest!: set_erase_at [THEN subsetD])
    qed
  next
    case False
    then have "destroy_stream i cl p = p" unfolding destroy_stream_def Let_def by (rule if_not_P)
    with Destroy_stream assms show ?thesis by simp
  qed
next
  case Poll_hosts
  with assms show ?thesis by (simp add: parts_sound_def running_def streams_def split: prod.split)
next
  case Launch_host
  with assms launch_sound [OF running_parts(1) [OF assms]] show ?thesis
    by (simp add: parts_sound_def running_def streams_def launcher_watchers list_all_iff ball_Un)
next
  case (Save_order net)
  have "streams (persistent_orders_saver env otl net p) = streams p \<and> BOT_TOKEN (persistent_orders_saver env otl net p) = BOT_TOKEN p
      \<and> server_instance (persistent_orders_saver env otl net p) = server_instance p
      \<and> terminated (persistent_orders_saver env otl net p) = terminated p"
    by (simp add: persistent_orders_saver_def program_simps split: prod.split)
  with assms Save_order save_sound [OF running_parts(2) [OF assms], of env otl net] show ?thesis
    by (simp add: parts_sound_def running_def list_all_iff)
next
  case (Sender i e)
  let ?cs = "message_senders (order_monitorer p)"
  let ?c = "happen tg_op_of (tg_handle (BOT_TOKEN p)) e (?cs ! i)"
  show ?thesis
  proof (cases "i < length ?cs \<and> tg_op_of e \<noteq> None \<and> can_happen tg_op_of (\<lambda>_ _. True) e (?cs ! i)")
    case True
    with running_parts(2) [OF assms] have "tg_sound (BOT_TOKEN p) (?cs ! i)" by simp
    note sound = tg_sound_step [OF this conjunct2 [OF conjunct2 [OF True]]]
    with assms Sender True show ?thesis
      by (cases "fault ?c") (auto simp: parts_sound_def running_def streams_def sender_step_def Let_def list_all_iff
          dest!: set_update_subset_insert [THEN subsetD])
  next
    case False
    then have "sender_step (BOT_TOKEN p) i e ?cs = ?cs" unfolding sender_step_def by (rule if_not_P)
    with assms Sender show ?thesis by (simp add: parts_sound_def running_def streams_def Let_def)
  qed
next
  case Keep_busy
  with assms show ?thesis
    by (auto simp: parts_sound_def running_def streams_def program_db_def keep_sql_server_busy_def split: option.split)
qed

lemma parts_sound_start:
  assumes "orders_main tenv otl read_file args steps tc net db = Running r"
  shows "parts_sound env (program_start r)"
proof -
  let ?db = "otl_connector (database_connector r)"
  have "message_senders (order_monitorer r) = []"
    unfolding main_start(2) [OF assms] by (simp add: saver_init_def split: prod.split)
  moreover have "\<exists>c0 evs. sv_inv c0 evs (server_instance r)"
    unfolding main_start(3) [OF assms] by (intro exI, rule sv_inv_start, intro exI, rule refl)
  ultimately show ?thesis using main_start(1) [OF assms]
    by (auto simp: parts_sound_def program_start_def streams_def monitor_init_def launch_previous_hosts_def
        launch_websocket_listeners_def)
qed

lemma program_sound:
  assumes "orders_main tenv otl read_file args steps tc net db = Running r"
  shows "parts_sound env (program_run env otl evs r)"
  by (rule program_invariant [where P = "parts_sound env"])
    (rule parts_sound_start [OF assms], rule program_handle_sound [THEN conjunct1])

section \<open>Saving\<close>

text \<open>An iteration of the saver takes one item from the container and cannot end the program.\<close>

lemma save_step:
  assumes "parts_sound env p" "running p"
  shows "parts_sound env (program_step env otl (Save_order net) p)" "running (program_step env otl (Save_order net) p)"
    and "m_container (stream_container (program_step env otl (Save_order net) p)) = drop 1 (m_container (stream_container p))"
    and "stream_items (program_step env otl (Save_order net) p) = stream_items p"
proof -
  let ?env = "(telegram_env env)\<lparr>t_token := BOT_TOKEN p\<rparr>"
  let ?r = "consumer_loop get (saver_step ?env otl net) 1 (stream_container p) ((order_monitorer p)\<lparr>saver_db := program_db p\<rparr>)"
  from program_handle_sound [OF assms, of otl "Save_order net"] assms(2)
  show "parts_sound env (program_step env otl (Save_order net) p)" "running (program_step env otl (Save_order net) p)"
    by (auto simp: program_step_def)
  have "m_container (fst ?r) = drop 1 (m_container (stream_container p))"
    using wc.consumer_loop_fold [of "saver_step ?env otl net" 1 "stream_container p"] by blast
  with assms(2) show "m_container (stream_container (program_step env otl (Save_order net) p)) = drop 1 (m_container (stream_container p))"
    "stream_items (program_step env otl (Save_order net) p) = stream_items p"
    by (cases ?r; simp add: program_step_def persistent_orders_saver_def set_db_def)+
qed

lemma save_steps:
  assumes "parts_sound env p" "running p"
  shows "running (fold (program_step env otl) (map Save_order nets) p)
    \<and> m_container (stream_container (fold (program_step env otl) (map Save_order nets) p))
        = drop (length nets) (m_container (stream_container p))
    \<and> stream_items (fold (program_step env otl) (map Save_order nets) p) = stream_items p"
  using assms
proof (induction nets arbitrary: p)
  case (Cons net nets)
  note step = save_step [OF Cons.prems, of otl net]
  from Cons.IH [OF step(1,2)] step(3,4) show ?case by simp
qed simp

section \<open>Runs with one stream\<close>

text \<open>The network's events of a single stream run it as it would run alone.\<close>

lemma single_stream_run:
  assumes "uds_exec (stream_env env) evs c = Some c'" "list_all from_network evs"
    and "websocks (watchers (host_monitorer p)) = [c]" "detached (watchers (host_monitorer p)) = []"
    and "destroyed p = []"
    and "terminated p = None" "fault (server_instance p) = None" "message_senders (order_monitorer p) = []"
  shows "streams (fold (program_step env otl) (map (Stream 0) evs) p) = [c']
    \<and> (running (fold (program_step env otl) (map (Stream 0) evs) p) \<longleftrightarrow> fault c' = None)"
  using assms
proof (induction evs arbitrary: c p)
  case Nil
  then show ?case by (simp add: streams_def running_def)
next
  case (Cons ev evs)
  let ?c = "happen uds_op_of (uds_handle (stream_env env)) ev c"
  from Cons.prems(1) have ev: "can_happen uds_op_of uds_enabled ev c" and run: "uds_exec (stream_env env) evs ?c = Some c'"
    by (simp_all split: if_splits)
  let ?xs = "items_of (drop (length (outs c)) (outs ?c))"
  let ?p = "deliver ((watchers (host_monitorer p))\<lparr>websocks := [?c]\<rparr>) ?xs p"
  have "running p" using Cons.prems(3-8) ev by (simp add: running_def streams_def can_happen_def)
  then have p: "program_step env otl (Stream 0 ev) p = ?p"
    using Cons.prems(2,3) ev by (simp add: program_step_def stream_step_def Let_def)
  have "streams (fold (program_step env otl) (map (Stream 0) evs) ?p) = [c']
      \<and> (running (fold (program_step env otl) (map (Stream 0) evs) ?p) \<longleftrightarrow> fault c' = None)"
    by (rule Cons.IH [OF run]) (use Cons.prems in \<open>simp_all add: deliver_def\<close>)
  then show ?case by (simp add: p)
qed

text \<open>A database that executes every statement, with one account in its hosts table.\<close>

definition one_host_otl :: "string list otl" where
  "one_host_otl = recording_otl\<lparr>select_hosts := (\<lambda>_. [(''main'', ''key1'', ''sec1'', ''traders'')]),
     select_chats := (\<lambda>_. [(''42'', ''traders'', 1)])\<rparr>"

lemma one_host: "logs_all one_host_otl (\<lambda>db. db)" "get_available_hosts one_host_otl db = [watched_host]"
  by (simp_all add: one_host_otl_def recording_otl_def logs_all_def get_available_hosts_def watched_host_def)

definition example_env :: "int program_env" where
  "example_env = \<lparr>stream_env = key_env, telegram_env = config_env, web_env = text_env\<rparr>"

lemma example_program:
  "\<exists>r. orders_main config_env one_host_otl (\<lambda>_. Some []) default_arguments
      [None, None, None, None] 8 [] [] = Running r \<and> BOT_TOKEN r = ''T'' \<and> otl_connector (database_connector r) = []
    \<and> (\<forall>evs c. uds_exec key_env evs (uds_launch watched_host) = Some c \<longrightarrow> list_all from_network evs \<longrightarrow>
      streams (program_run example_env one_host_otl (map (Stream 0) evs) r) = [c]
      \<and> (running (program_run example_env one_host_otl (map (Stream 0) evs) r) \<longleftrightarrow> fault c = None))"
proof -
  have "launch_type default_arguments = ''development''" by (simp add: default_arguments_def)
  moreover have "rlogon one_host_otl l db = Some db" for l db by (simp add: one_host_otl_def recording_otl_def)
  ultimately obtain r where r: "orders_main config_env one_host_otl (\<lambda>_. Some []) default_arguments
      [None, None, None, None] 8 [] [] = Running r" "BOT_TOKEN r = ''T''" "otl_connector (database_connector r) = []"
    by (simp add: orders_main_def config_read connect_configured new_server_open Let_def)
  note start = main_start [OF r(1)]
  have "fault (server_instance r) = None" unfolding start(3)
    by (simp add: sv_defs new_server_def async_defs split: option.split)
  moreover have "message_senders (order_monitorer r) = []"
    unfolding start(2) by (simp add: saver_init_def split: prod.split)
  ultimately have "streams (program_run example_env one_host_otl (map (Stream 0) evs) r) = [c]
      \<and> (running (program_run example_env one_host_otl (map (Stream 0) evs) r) \<longleftrightarrow> fault c = None)"
    if "uds_exec key_env evs (uds_launch watched_host) = Some c" "list_all from_network evs" for evs c
    unfolding program_run_def using that start(1)
    by (intro single_stream_run [of _ _ "uds_launch watched_host"])
      (simp_all add: example_env_def program_start_def monitor_init_def launch_previous_hosts_def
        launch_websocket_listeners_def one_host)
  with r show ?thesis by blast
qed

section \<open>Properties\<close>

lemma reach_database:
  assumes "logs_all otl stmts" "orders_main tenv otl read_file args steps tc net db = Running r"
    and "p = program_run env otl evs r"
  shows "rows stmts (program_db p) @ concat (map row_of (m_container (stream_container p)))
      = rows stmts (otl_connector (database_connector r)) @ concat (map row_of (stream_items p))
    \<and> mset (stream_items p) = (\<Sum>c\<in>#mset (streams p). mset (items_of (outs c)))"
proof -
  have "rows_inv stmts (rows stmts (otl_connector (database_connector r))) p"
    unfolding assms(3)
    by (rule program_invariant [where P = "rows_inv stmts _"]) (rule rows_inv_start [OF assms(1,2)], rule rows_inv_step [OF assms(1)])
  then show ?thesis by (simp add: rows_inv_def items_out_def)
qed





text \<open>
  C4. The streams of the running program follow the hosts table: as long as no accounts were uploaded,
  whatever else happened, once the monitor has polled the table and the launcher has drained the
  container, there is exactly one stream for each account of the table, with its telegram group (of
  the last row, should the table repeat an account).
\<close>

theorem program_follows_table:
  assumes "orders_main tenv otl read_file args steps tc net db = Running r"
    and "distinct (map host_key (get_available_hosts otl (otl_connector (database_connector r))))"
    and "p = program_run env otl evs r" "hosts_queued (outs (server_instance p)) = []"
    and "m = drain (stream_env env) (monitor_step (stream_env env) otl (Poll (program_db p)) (host_monitorer p))"
  shows "map_of (map host_cfg (watched m)) = map_of (rev (map host_cfg (get_available_hosts otl (program_db p))))
    \<and> distinct (map host_key (watched m))"
proof -
  have "hosts_inv (program_start r)"
    using init_synced [OF assms(2)] main_start(1) [OF assms(1)] by (simp add: hosts_inv_def program_start_def)
  then have "hosts_inv p" unfolding assms(3) by (rule program_invariant) (rule hosts_inv_step)
  with assms(4) have "synced (host_monitorer p)" by (simp add: hosts_inv_def)
  from synced_poll [OF this assms(5)] show ?thesis .
qed

theorem program_follows_table_witness:
  "\<exists>p :: string list running_program. map_of (map host_cfg (watched (drain key_env
     (monitor_step key_env one_host_otl (Poll (program_db p)) (host_monitorer p))))) = [host_key watched_host \<mapsto> ''traders'']"
proof -
  obtain r where r: "orders_main config_env one_host_otl (\<lambda>_. Some []) default_arguments
      [None, None, None, None] 8 [] [] = Running r" using example_program by blast
  let ?p = "program_run example_env one_host_otl [] r"
  have "hosts_queued (outs (server_instance ?p)) = []"
    using main_start(3) [OF r]
    by (simp add: program_run_def program_start_def sv_defs new_server_def async_defs split: option.split)
  from program_follows_table [OF r _ refl this refl] show ?thesis
    by (intro exI [of _ ?p])
      (simp add: one_host example_env_def, simp add: host_cfg_def watched_host_def)
qed



end
