(* ===== verification/Orders_Messages.thy ===== *)
theory Orders_Messages
  imports Orders_Program_Properties
begin

text \<open>
  The Telegram messages of the whole program: which items become messages, to which chats they are
  addressed, and that the requests the senders put on the wire, the messages still queued and those
  lost with a discarded sender account for all of them.
\<close>

section \<open>What a run does\<close>

text \<open>Concatenates what \<open>f\<close> observes of each step of a run.\<close>

fun run_trace :: "(program_event \<Rightarrow> 'db running_program \<Rightarrow> 'a list) \<Rightarrow> 'f program_env \<Rightarrow> 'db otl \<Rightarrow>
    program_event list \<Rightarrow> 'db running_program \<Rightarrow> 'a list" where
  "run_trace f env otl [] p = []"
| "run_trace f env otl (ev # evs) p =
     (if running p then f ev p else []) @ run_trace f env otl evs (program_step env otl ev p)"

text \<open>The requests that a step of a sender puts on the wire.\<close>

definition step_requests :: "'f program_env \<Rightarrow> 'db otl \<Rightarrow> program_event \<Rightarrow> 'db running_program \<Rightarrow> http_request list" where
  "step_requests env otl ev p = (case ev of
     Sender i e \<Rightarrow> (let cs = message_senders (order_monitorer p);
         cs' = message_senders (order_monitorer (program_handle env otl ev p)) in
       if i < length cs then drop (length (sent (outs (cs ! i)))) (sent (outs (cs' ! i))) else [])
   | _ \<Rightarrow> [])"

text \<open>The message of an iteration of the saver, if the chat of the group is known by then.\<close>

definition step_messages :: "'f program_env \<Rightarrow> 'db otl \<Rightarrow> program_event \<Rightarrow> 'db running_program \<Rightarrow>
    (user_stream_result_t \<times> string) list" where
  "step_messages env otl ev p = (case ev of
     Save_order net \<Rightarrow> (case get (stream_container p) of
         None \<Rightarrow> []
       | Some (item, _) \<Rightarrow>
           (case map_of (chats_id_map (order_monitorer (program_handle env otl ev p))) (item_group item) of
              None \<Rightarrow> [] | Some chat \<Rightarrow> [(item, telegram_chat_id chat)]))
   | _ \<Rightarrow> [])"

text \<open>The messages still queued in the senders that the iteration discards.\<close>

definition step_lost :: "'f program_env \<Rightarrow> 'db otl \<Rightarrow> program_event \<Rightarrow> 'db running_program \<Rightarrow> tg_payload_t list" where
  "step_lost env otl ev p =
     (if step_messages env otl ev p = [] then [] else queued (dropped (message_senders (order_monitorer p))))"

definition message_request :: "string \<Rightarrow> user_stream_result_t \<times> string \<Rightarrow> http_request" where
  "message_request token = (\<lambda>(item, chat). tg_request token \<lparr>p_text = prepare_telegram_payload item, p_chat_id = chat\<rparr>)"

lemma run_trace_snoc:
  "run_trace f env otl (evs @ [ev]) p =
     run_trace f env otl evs p @ (let q = fold (program_step env otl) evs p in if running q then f ev q else [])"
  by (induction evs arbitrary: p) (simp_all add: Let_def)

section \<open>The steps of the senders\<close>

definition queued_requests :: "string \<Rightarrow> tg_conf list \<Rightarrow> http_request multiset" where
  "queued_requests token cs = image_mset (tg_request token) (mset (queued cs))"

lemma queued_requests_simps [simp]:
  "queued_requests token [] = {#}"
  "queued_requests token (c # cs) = mset (map (tg_request token) (s_payloads (obj c))) + queued_requests token cs"
  by (simp_all add: queued_requests_def queued_def)

lemma queued_requests_update:
  assumes "i < length cs" "map (tg_request token) (s_payloads (obj (cs ! i)))
      = xs @ map (tg_request token) (s_payloads (obj c))"
  shows "queued_requests token cs = mset xs + queued_requests token (cs[i := c])"
  using assms
proof (induction cs arbitrary: i)
  case (Cons d cs)
  show ?case
  proof (cases i)
    case 0
    with Cons.prems have "mset (map (tg_request token) (s_payloads (obj d)))
        = mset xs + mset (map (tg_request token) (s_payloads (obj c)))" by (metis mset_append nth_Cons_0)
    with 0 show ?thesis by (simp add: ac_simps)
  next
    case (Suc j)
    with Cons.prems Cons.IH [of j] show ?thesis by (simp add: ac_simps)
  qed
qed simp

lemma sender_step_moves:
  assumes "\<forall>c\<in>set cs. tg_sound token c" "i < length cs"
  shows "queued_requests token cs = mset (drop (length (sent (outs (cs ! i)))) (sent (outs (sender_step token i ev cs ! i))))
    + queued_requests token (sender_step token i ev cs)"
proof (cases "tg_op_of ev \<noteq> None \<and> can_happen tg_op_of (\<lambda>_ _. True) ev (cs ! i)")
  case True
  with assms sender_moves [of token "cs ! i" ev] obtain xs where
    "sent (outs (happen tg_op_of (tg_handle token) ev (cs ! i))) = sent (outs (cs ! i)) @ xs"
    "map (tg_request token) (s_payloads (obj (cs ! i)))
      = xs @ map (tg_request token) (s_payloads (obj (happen tg_op_of (tg_handle token) ev (cs ! i))))" by auto
  with True assms(2) queued_requests_update [OF assms(2) this(2)] show ?thesis
    by (simp add: sender_step_def)
next
  case False
  then show ?thesis by (auto simp: sender_step_def)
qed

section \<open>The steps of the saver\<close>

text \<open>The group of the item determines the chat; the map is the one after a possible update.\<close>

lemma send_message:
  "message_senders (send_telegram_message env otl net text g s) =
     (case map_of (chats_id_map (send_telegram_message env otl net text g s)) g of
        None \<Rightarrow> message_senders s
      | Some chat \<Rightarrow> chat_known env \<lparr>p_text = text, p_chat_id = telegram_chat_id chat\<rparr> (message_senders s))"
proof (cases "map_of (chats_id_map s) g")
  case (Some chat)
  then show ?thesis by (simp add: send_telegram_message_def)
next
  case None
  obtain m db where "tg_get_new_updates env otl net (chats_id_map s, saver_db s) = (m, db)" by fastforce
  with None show ?thesis by (cases "map_of m g") (simp_all add: send_telegram_message_def)
qed

lemma saver_step_message:
  "message_senders (saver_step env otl net item s) =
     (case map_of (chats_id_map (saver_step env otl net item s)) (item_group item) of
        None \<Rightarrow> message_senders s
      | Some chat \<Rightarrow> chat_known env \<lparr>p_text = prepare_telegram_payload item, p_chat_id = telegram_chat_id chat\<rparr>
          (message_senders s))"
proof -
  have "message_senders (save_item otl item t) = message_senders t" "chats_id_map (save_item otl item t) = chats_id_map t" for t
    by (simp_all add: save_item_def Let_def)
  then show ?thesis unfolding saver_step_def by (simp only: send_message [of env otl net "prepare_telegram_payload item"])
qed

lemma queued_requests_known:
  "queued_requests token (chat_known env m cs) + queued_requests token (dropped cs)
     = queued_requests token cs + {#tg_request token m#}"
  using arg_cong [OF chat_known_accepts [of env m cs], of "image_mset (tg_request token)"]
  by (simp add: queued_requests_def)

lemma save_cases:
  obtains "get (stream_container p) = None" "m_container (stream_container p) = []"
    "persistent_orders_saver env otl net p = set_db (program_db p) (p\<lparr>order_monitorer := (order_monitorer p)\<lparr>saver_db := program_db p\<rparr>\<rparr>)"
  | item q where "get (stream_container p) = Some (item, q)" "m_container (stream_container p) = item # m_container q"
    "persistent_orders_saver env otl net p =
       (let s = saver_step ((telegram_env env)\<lparr>t_token := BOT_TOKEN p\<rparr>) otl net item ((order_monitorer p)\<lparr>saver_db := program_db p\<rparr>)
        in set_db (saver_db s) (p\<lparr>stream_container := q, order_monitorer := s\<rparr>))"
proof (cases "m_container (stream_container p)")
  case Nil
  then have "get (stream_container p) = None" by (rule wc.take_blocked)
  with Nil show ?thesis by (intro that(1)) (simp_all add: persistent_orders_saver_def)
next
  case (Cons x xs)
  from wc.take_ready [OF this] obtain q where "get (stream_container p) = Some (x, q)" "m_container q = xs" by blast
  with Cons show ?thesis by (intro that(2)) (simp_all add: persistent_orders_saver_def Let_def)
qed

text \<open>
  The senders with their invariants; the items taken so far, of which those with a known chat became
  messages; and the account of the messages.
\<close>

definition messages_inv :: "'f program_env \<Rightarrow> string \<Rightarrow> http_request list \<Rightarrow> tg_payload_t list \<Rightarrow>
    (user_stream_result_t \<times> string) list \<Rightarrow> 'db running_program \<Rightarrow> bool" where
  "messages_inv env token reqs lost msgs p \<longleftrightarrow> parts_sound env p \<and> BOT_TOKEN p = token
     \<and> mset reqs + queued_requests token (message_senders (order_monitorer p)) + mset (map (tg_request token) lost)
         = mset (map (message_request token) msgs)
     \<and> (\<exists>taken. stream_items p = taken @ m_container (stream_container p) \<and> subseq (map fst msgs) taken)"

lemma messages_inv_frame:
  assumes "messages_inv env token reqs lost msgs p" "parts_sound env q" "BOT_TOKEN q = BOT_TOKEN p"
    and "message_senders (order_monitorer q) = message_senders (order_monitorer p)"
    and "stream_items q = stream_items p @ xs" "m_container (stream_container q) = m_container (stream_container p) @ xs"
  shows "messages_inv env token reqs lost msgs q"
  using assms by (auto simp: messages_inv_def)

lemma messages_inv_save:
  assumes inv: "messages_inv env token reqs lost msgs p" and sound: "parts_sound env (program_handle env otl (Save_order net) p)"
  shows "messages_inv env token reqs (lost @ step_lost env otl (Save_order net) p)
    (msgs @ step_messages env otl (Save_order net) p) (program_handle env otl (Save_order net) p)"
proof (rule save_cases [of p env otl net])
  assume p: "get (stream_container p) = None" "m_container (stream_container p) = []"
    "persistent_orders_saver env otl net p = set_db (program_db p) (p\<lparr>order_monitorer := (order_monitorer p)\<lparr>saver_db := program_db p\<rparr>\<rparr>)"
  then have "step_messages env otl (Save_order net) p = []" by (simp add: step_messages_def)
  with messages_inv_frame [OF inv sound, of "[]"] p show ?thesis by (simp add: step_lost_def set_db_def)
next
  fix item q
  let ?env = "(telegram_env env)\<lparr>t_token := BOT_TOKEN p\<rparr>"
  let ?s = "saver_step ?env otl net item ((order_monitorer p)\<lparr>saver_db := program_db p\<rparr>)"
  let ?cs = "message_senders (order_monitorer p)"
  assume g: "get (stream_container p) = Some (item, q)" and c: "m_container (stream_container p) = item # m_container q"
    and p: "persistent_orders_saver env otl net p =
      (let s = ?s in set_db (saver_db s) (p\<lparr>stream_container := q, order_monitorer := s\<rparr>))"
  from p have h: "order_monitorer (program_handle env otl (Save_order net) p) = ?s"
    "stream_container (program_handle env otl (Save_order net) p) = q"
    "stream_items (program_handle env otl (Save_order net) p) = stream_items p"
    "BOT_TOKEN (program_handle env otl (Save_order net) p) = BOT_TOKEN p" by (simp_all add: set_db_def Let_def)
  from inv obtain taken where taken: "stream_items p = taken @ m_container (stream_container p)" "subseq (map fst msgs) taken"
    by (auto simp: messages_inv_def)
  show ?thesis
  proof (cases "map_of (chats_id_map ?s) (item_group item)")
    case None
    then have "step_messages env otl (Save_order net) p = []" unfolding step_messages_def using g h(1) by simp
    moreover have "message_senders ?s = ?cs" using saver_step_message [of ?env otl net item] None by simp
    moreover have "subseq (map fst msgs) (taken @ [item])" using taken(2) by (rule subseq_rev_drop_many)
    ultimately show ?thesis using inv sound h taken c by (auto simp: messages_inv_def step_lost_def)
  next
    case (Some chat)
    then have m: "step_messages env otl (Save_order net) p = [(item, telegram_chat_id chat)]"
      unfolding step_messages_def using g h(1) by simp
    let ?m = "\<lparr>p_text = prepare_telegram_payload item, p_chat_id = telegram_chat_id chat\<rparr>"
    have cs: "message_senders ?s = chat_known ?env ?m ?cs"
      using saver_step_message [of ?env otl net item] Some by simp
    have "subseq (map fst msgs @ [item]) (taken @ [item])" using taken(2) by (intro list_emb_append_mono) simp_all
    moreover have "mset reqs + queued_requests token (chat_known ?env ?m ?cs) + mset (map (tg_request token) (lost @ queued (dropped ?cs)))
        = mset (map (message_request token) (msgs @ [(item, telegram_chat_id chat)]))"
      using inv queued_requests_known [of token ?env ?m ?cs]
      by (simp add: messages_inv_def message_request_def queued_requests_def ac_simps)
    ultimately show ?thesis using inv sound h taken c cs m by (auto simp: messages_inv_def step_lost_def)
  qed
qed

lemma messages_inv_step:
  assumes inv: "messages_inv env token reqs lost msgs p" and "running p"
  shows "messages_inv env token (reqs @ step_requests env otl ev p) (lost @ step_lost env otl ev p)
    (msgs @ step_messages env otl ev p) (program_handle env otl ev p)"
proof -
  have parts: "parts_sound env p" using inv by (simp add: messages_inv_def)
  have sound: "parts_sound env (program_handle env otl ev p)"
    using program_handle_sound [OF parts assms(2)] by blast
  show ?thesis
  proof (cases ev)
    case (Save_order net)
    with messages_inv_save [OF inv] sound show ?thesis by (simp add: step_requests_def)
  next
    case (Sender i e)
    let ?cs = "message_senders (order_monitorer p)"
    have cs: "\<forall>c\<in>set ?cs. tg_sound token c" "BOT_TOKEN p = token"
      using parts inv by (auto simp: parts_sound_def messages_inv_def)
    have "queued_requests token ?cs = mset (step_requests env otl ev p) + queued_requests token (sender_step token i e ?cs)"
    proof (cases "i < length ?cs")
      case True
      with sender_step_moves [OF cs(1) True, of e] Sender cs(2) show ?thesis by (simp add: step_requests_def Let_def)
    next
      case False
      with Sender show ?thesis by (simp add: step_requests_def sender_step_def)
    qed
    with Sender inv sound cs(2) show ?thesis
      by (simp add: messages_inv_def step_lost_def step_messages_def Let_def ac_simps)
  next
    case (Stream i e)
    with inv sound show ?thesis
      by (auto simp: messages_inv_def step_requests_def step_lost_def step_messages_def deliver_def append_list_def Let_def
          split: prod.splits)
  next
    case (Detached_stream i e)
    with inv sound show ?thesis
      by (auto simp: messages_inv_def step_requests_def step_lost_def step_messages_def deliver_def append_list_def Let_def
          split: prod.splits)
  next
    case (Destroyed_stream i e)
    with inv sound show ?thesis
      by (auto simp: messages_inv_def step_requests_def step_lost_def step_messages_def deliver_def append_list_def Let_def
          split: prod.splits)
  next
    case (Destroy_stream i cl)
    then have "messages_inv env token reqs lost msgs (program_handle env otl ev p)"
      by (intro messages_inv_frame [OF inv sound, of "[]"])
        (simp_all add: destroy_stream_def Let_def split: sum.split)
    with Destroy_stream show ?thesis by (simp add: step_requests_def step_lost_def step_messages_def)
  next
    case Keep_busy
    then have "messages_inv env token reqs lost msgs (program_handle env otl ev p)"
      by (intro messages_inv_frame [OF inv sound, of "[]"]) (simp_all split: sum.split)
    with Keep_busy show ?thesis by (simp add: step_requests_def step_lost_def step_messages_def)
  qed (use messages_inv_frame [OF inv sound, of "[]"] in
      \<open>simp_all add: step_requests_def step_lost_def step_messages_def\<close>)
qed

section \<open>When a message is lost\<close>

text \<open>A failure before the connection of a sender is open; it completes the sender with its queue.\<close>

fun setup_failure :: "tg_event \<Rightarrow> bool" where
  "setup_failure (Tg_resolved ec) = (ec \<noteq> None)"
| "setup_failure (Tg_connected ec sni) = (ec \<noteq> None)"
| "setup_failure (Tg_handshaken ec) = (ec \<noteq> None)"
| "setup_failure _ = False"

fun sender_fails :: "program_event \<Rightarrow> bool" where
  "sender_fails (Sender i ev) = setup_failure ev"
| "sender_fails _ = False"

definition done_empty :: "tg_conf \<Rightarrow> bool" where
  "done_empty c \<longleftrightarrow> (s_completed (obj c) \<longrightarrow> s_payloads (obj c) = [])"

lemma done_empty_step:
  assumes "done_empty c" "\<not> setup_failure ev" "tg_op_of ev \<noteq> None"
  shows "done_empty (happen tg_op_of (tg_handle token) ev c)"
  using assms
  by (cases ev) (auto simp: done_empty_def happen_def conf_of_def tg_defs emit_then_def Let_def
      split: option.splits list.splits)

lemma done_empty_known:
  assumes "\<forall>c\<in>set cs. done_empty c"
  shows "\<forall>c\<in>set (chat_known env m cs). done_empty c" "queued (dropped cs) = []"
proof -
  show "queued (dropped cs) = []" using assms by (auto simp: dropped_def queued_def done_empty_def completed_operation_def)
  show "\<forall>c\<in>set (chat_known env m cs). done_empty c"
  proof (cases "find_index (\<lambda>c. available_with_less_tasks (obj c)) cs")
    case None
    with assms show ?thesis by (simp add: chat_known_def done_empty_def tg_defs async_defs)
  next
    case (Some i)
    from find_index_Some [OF Some] have "done_empty (give_payload env m (cs ! i))"
      by (simp add: done_empty_def give_payload_obj available_with_less_tasks_def)
    with Some assms show ?thesis by (auto simp: chat_known_def dest!: set_update_subset_insert [THEN subsetD])
  qed
qed

lemma handled_senders:
  "message_senders (order_monitorer (program_handle env otl ev p)) = message_senders (order_monitorer p)
   \<or> (\<exists>i e. ev = Sender i e) \<or> (\<exists>net. ev = Save_order net)"
  by (cases ev) (auto simp: Let_def deliver_def destroy_stream_def split: prod.split sum.split)

lemma nothing_lost_step:
  assumes "\<forall>c\<in>set (message_senders (order_monitorer p)). done_empty c" "\<not> sender_fails ev"
  shows "step_lost env otl ev p = []"
    and "\<forall>c\<in>set (message_senders (order_monitorer (program_handle env otl ev p))). done_empty c"
proof -
  let ?cs = "message_senders (order_monitorer p)"
  show "step_lost env otl ev p = []" using done_empty_known(2) [OF assms(1)] by (simp add: step_lost_def)
  consider "message_senders (order_monitorer (program_handle env otl ev p)) = ?cs"
    | i e where "ev = Sender i e" | net where "ev = Save_order net" using handled_senders by blast
  then show "\<forall>c\<in>set (message_senders (order_monitorer (program_handle env otl ev p))). done_empty c"
  proof cases
    case 1
    with assms(1) show ?thesis by simp
  next
    case (2 i e)
    with assms done_empty_step [of "?cs ! i" e "BOT_TOKEN p"] show ?thesis
      by (auto simp: sender_step_def Let_def dest!: set_update_subset_insert [THEN subsetD])
  next
    case (3 net)
    show ?thesis
    proof (rule save_cases [of p env otl net])
      assume "persistent_orders_saver env otl net p
        = set_db (program_db p) (p\<lparr>order_monitorer := (order_monitorer p)\<lparr>saver_db := program_db p\<rparr>\<rparr>)"
      with 3 assms(1) show ?thesis by (simp add: set_db_def)
    next
      fix item q
      assume "persistent_orders_saver env otl net p =
        (let s = saver_step ((telegram_env env)\<lparr>t_token := BOT_TOKEN p\<rparr>) otl net item ((order_monitorer p)\<lparr>saver_db := program_db p\<rparr>)
         in set_db (saver_db s) (p\<lparr>stream_container := q, order_monitorer := s\<rparr>))"
      with 3 assms(1) done_empty_known(1) [OF assms(1)] show ?thesis
        by (auto simp: set_db_def Let_def saver_step_message split: option.splits)
    qed
  qed
qed

section \<open>Runs\<close>

lemma started_senders:
  "orders_main tenv otl read_file args steps tc net db = Running r \<Longrightarrow>
   message_senders (order_monitorer (program_start r)) = []"
  using main_start(2) by (fastforce simp: program_start_def saver_init_def split: prod.splits)

lemma messages_inv_run:
  assumes "orders_main tenv otl read_file args steps tc net db = Running r"
  shows "messages_inv env (BOT_TOKEN r) (run_trace (step_requests env otl) env otl evs (program_start r))
    (run_trace (step_lost env otl) env otl evs (program_start r))
    (run_trace (step_messages env otl) env otl evs (program_start r)) (program_run env otl evs r)"
proof (induction evs rule: rev_induct)
  case Nil
  have "parts_sound env (program_run env otl [] r)" by (rule program_sound [OF assms])
  with started_senders [OF assms] show ?case
    by (simp add: messages_inv_def program_run_def) (simp add: program_start_def waitable_empty_def)
next
  case (snoc ev evs)
  show ?case
  proof (cases "running (program_run env otl evs r)")
    case True
    with messages_inv_step [OF snoc.IH True] show ?thesis
      by (simp add: run_trace_snoc program_run_snoc program_step_def Let_def flip: program_run_def)
  next
    case False
    with snoc.IH show ?thesis
      by (simp add: run_trace_snoc program_run_snoc program_step_def Let_def flip: program_run_def)
  qed
qed

lemma nothing_lost_run:
  assumes "orders_main tenv otl read_file args steps tc net db = Running r" "list_all (\<lambda>ev. \<not> sender_fails ev) evs"
  shows "run_trace (step_lost env otl) env otl evs (program_start r) = []
    \<and> (\<forall>c\<in>set (message_senders (order_monitorer (program_run env otl evs r))). done_empty c)"
  using assms(2)
proof (induction evs rule: rev_induct)
  case Nil
  with started_senders [OF assms(1)] show ?case by (simp add: program_run_def)
next
  case (snoc ev evs)
  then have "\<forall>c\<in>set (message_senders (order_monitorer (program_run env otl evs r))). done_empty c" "\<not> sender_fails ev"
    by simp_all
  from nothing_lost_step [OF this, of env otl] snoc show ?case
    by (simp add: run_trace_snoc program_run_snoc program_step_def Let_def flip: program_run_def)
qed

section \<open>Properties\<close>


lemma single_sender_run:
  assumes "tg_exec (BOT_TOKEN p) evs c = Some c'" "list_all (\<lambda>ev. tg_op_of ev \<noteq> None) evs"
    and "message_senders (order_monitorer p) = [c]" "list_all (\<lambda>c. fault c = None) (streams p)"
    and "terminated p = None" "fault (server_instance p) = None"
  shows "message_senders (order_monitorer (fold (program_step env otl) (map (Sender 0) evs) p)) = [c']"
  using assms
proof (induction evs arbitrary: c p)
  case (Cons ev evs)
  let ?c = "happen tg_op_of (tg_handle (BOT_TOKEN p)) ev c"
  let ?p = "p\<lparr>order_monitorer := (order_monitorer p)\<lparr>message_senders := [?c]\<rparr>\<rparr>"
  from Cons.prems(1) have ev: "can_happen tg_op_of (\<lambda>_ _. True) ev c" and run: "tg_exec (BOT_TOKEN p) evs ?c = Some c'"
    by (simp_all split: if_splits)
  have "running p" using Cons.prems(3-6) ev by (simp add: running_def can_happen_def)
  then have "program_step env otl (Sender 0 ev) p = ?p"
    using Cons.prems(2,3) ev by (simp add: program_step_def sender_step_def Let_def)
  moreover have "message_senders (order_monitorer (fold (program_step env otl) (map (Sender 0) evs) ?p)) = [c']"
    by (rule Cons.IH) (use Cons.prems run in \<open>simp_all add: streams_def\<close>)
  ultimately show ?case by simp
qed simp

lemma no_messages: "list_all (\<lambda>ev. \<forall>net. ev \<noteq> Save_order net) evs \<Longrightarrow> run_trace (step_messages env otl) env otl evs p = []"
proof (induction evs arbitrary: p)
  case (Cons ev evs)
  then show ?case by (cases ev) (simp_all add: step_messages_def)
qed simp

lemma streams_only:
  "order_monitorer (fold (program_step env otl) (map (Stream 0) evs) p) = order_monitorer p"
  "BOT_TOKEN (fold (program_step env otl) (map (Stream 0) evs) p) = BOT_TOKEN p"
  "stream_items p = m_container (stream_container p) \<Longrightarrow>
     stream_items (fold (program_step env otl) (map (Stream 0) evs) p)
       = m_container (stream_container (fold (program_step env otl) (map (Stream 0) evs) p))"
  by (induction evs arbitrary: p)
    (simp_all add: program_step_def Let_def deliver_def append_list_def split: prod.split)

lemma one_chat:
  "chats_id_map (saver_init env one_host_otl [] db) = [(''traders'', \<lparr>database_id = 1, telegram_chat_id = ''42''\<rparr>)]"
  by (simp add: saver_init_def get_tg_cached_ids_def one_host_otl_def tg_get_new_updates_def update_callbacks_def
      cu_launch_def cu_defs async_defs split: prod.split)

lemma saver_step_known:
  "map_of (chats_id_map s) (item_group item) = Some chat \<Longrightarrow>
   chats_id_map (saver_step env otl net item s) = chats_id_map s"
  by (simp add: saver_step_def send_telegram_message_def save_item_def Let_def)

lemma known_message:
  assumes "running p" "m_container (stream_container p) = [item]" "message_senders (order_monitorer p) = []"
    and "map_of (chats_id_map (order_monitorer p)) (item_group item) = Some chat"
    and "q = program_step env otl (Save_order net) p"
  shows "message_senders (order_monitorer q) = [tg_launch \<lparr>p_text = prepare_telegram_payload item, p_chat_id = telegram_chat_id chat\<rparr>]"
    and "step_messages env otl (Save_order net) p = [(item, telegram_chat_id chat)]"
    and "streams q = streams p" "terminated q = terminated p" "server_instance q = server_instance p" "BOT_TOKEN q = BOT_TOKEN p"
proof -
  let ?s = "saver_step ((telegram_env env)\<lparr>t_token := BOT_TOKEN p\<rparr>) otl net item ((order_monitorer p)\<lparr>saver_db := program_db p\<rparr>)"
  from wc.take_ready [OF assms(2)] obtain c where get: "get (stream_container p) = Some (item, c)" by blast
  have map: "chats_id_map ?s = chats_id_map (order_monitorer p)"
    using saver_step_known [of "(order_monitorer p)\<lparr>saver_db := program_db p\<rparr>"] assms(4) by simp
  have handle: "program_handle env otl (Save_order net) p = set_db (saver_db ?s) (p\<lparr>stream_container := c, order_monitorer := ?s\<rparr>)"
    using get by (simp add: persistent_orders_saver_def)
  with assms(1,5) have q: "q = set_db (saver_db ?s) (p\<lparr>stream_container := c, order_monitorer := ?s\<rparr>)"
    by (simp add: program_step_def)
  then show "streams q = streams p" "terminated q = terminated p" "server_instance q = server_instance p" "BOT_TOKEN q = BOT_TOKEN p"
    by (simp_all add: set_db_def streams_def)
  show "message_senders (order_monitorer q) = [tg_launch \<lparr>p_text = prepare_telegram_payload item, p_chat_id = telegram_chat_id chat\<rparr>]"
    using saver_step_message [of "(telegram_env env)\<lparr>t_token := BOT_TOKEN p\<rparr>" otl net item] map assms(3,4)
    by (simp add: q set_db_def chat_known_def)
  show "step_messages env otl (Save_order net) p = [(item, telegram_chat_id chat)]"
    unfolding step_messages_def handle using get map assms(4) by (simp add: set_db_def)
qed

lemma run_trace_append:
  "run_trace f env otl (xs @ ys) p = run_trace f env otl xs p @ run_trace f env otl ys (fold (program_step env otl) xs p)"
  by (induction xs arbitrary: p) simp_all

definition sender_run :: "tg_event list" where
  "sender_run = [Tg_resolved None, Tg_connected None None, Tg_handshaken None]"

lemma sender_run_sends:
  "\<exists>c. tg_exec token sender_run (tg_launch m) = Some c \<and> s_payloads (obj c) = []"
  by (simp add: sender_run_def tg_defs async_defs)


end
