(* ===== verification/Market_Data.thy ===== *)
theory Market_Data
  imports Containers Json
begin

text \<open>
  The data of the price watcher and what it does with it: binance_prices/include/orders_info.hpp,
  subscription_data.hpp and request_handler.hpp, the two message handlers of
  binance_prices/src/market_data_stream.cpp and the loop \<open>background_price_saver\<close> of
  binance_prices/src/websock_launcher.cpp. \<open>'f\<close> is the type of doubles.
\<close>

section \<open>Data\<close>

record instrument_type_t = instrument_id :: string

record 'f pushed_subscription_data_t =
  pd_instrument_id :: string
  current_price :: 'f
  open_24h :: 'f

text \<open>\<open>std::unordered_map\<close>: a map from upper-case symbols.\<close>

type_synonym 'f subscription_data_map_t = "string \<rightharpoonup> 'f pushed_subscription_data_t"

text \<open>\<open>request_handler_t\<close>: the three static members.\<close>

record 'f request_handler_t =
  tokens_container :: "'f pushed_subscription_data_t waitable_container_t"
  all_listed_instruments :: "instrument_type_t locked_set_t"
  all_pushed_sub_data :: "'f subscription_data_map_t"

definition request_handler_init :: "'f request_handler_t" where
  "request_handler_init = \<lparr>tokens_container = waitable_empty,
     all_listed_instruments = locked_set_empty, all_pushed_sub_data = Map.empty\<rparr>"

section \<open>Tasks\<close>

text \<open>
  The monitoring tasks of subscription_data.hpp with the values of a default initialisation. No code
  uses them yet.
\<close>

datatype task_state_e = State_unknown | State_initiated | State_running | State_stopped
  | State_restarted | State_remove

datatype task_type_e = Profit_and_loss | Price_changes | Type_unknown

datatype trade_direction_e = Direction_none | Direction_sell | Direction_buy

record 'f scheduled_task_t =
  st_request_id :: string
  st_for_username :: string
  st_token_name :: string
  st_direction :: string
  st_monitor_time_secs :: "64 word"
  st_column_id :: "64 word"
  st_current_time :: "64 word"
  st_status :: task_state_e
  st_task_type :: task_type_e
  st_order_price :: 'f
  st_money :: 'f
  st_quantity :: 'f

record 'f task_result_t =
  tr_request_id :: string
  tr_token_name :: string
  tr_for_username :: string
  tr_current_time :: string
  tr_direction :: trade_direction_e
  tr_task_type :: task_type_e
  tr_column_id :: "64 word"
  tr_order_price :: 'f
  tr_mkt_price :: 'f
  tr_money :: 'f
  tr_quantity :: 'f
  tr_pnl :: 'f

record 'f user_task_t =
  ut_request_id :: string
  ut_token_name :: string
  ut_direction :: string
  ut_created_time :: string
  ut_last_begin_time :: string
  ut_last_end_time :: string
  ut_column_id :: "64 word"
  ut_monitor_time_secs :: "64 word"
  ut_status :: task_state_e
  ut_task_type :: task_type_e
  ut_money :: 'f
  ut_order_price :: 'f
  ut_quantity :: 'f

datatype 'f scheduled_task_result_t = Scheduled_task "'f scheduled_task_t" | Task_result "'f task_result_t"

definition new_scheduled_task :: "'f double_ops \<Rightarrow> 'f scheduled_task_t" where
  "new_scheduled_task d = \<lparr>st_request_id = [], st_for_username = [], st_token_name = [], st_direction = [],
     st_monitor_time_secs = 0, st_column_id = 0, st_current_time = 0, st_status = State_unknown,
     st_task_type = Type_unknown, st_order_price = d_of_int64 d 0, st_money = d_of_int64 d 0,
     st_quantity = d_of_int64 d 0\<rparr>"

definition new_task_result :: "'f double_ops \<Rightarrow> 'f task_result_t" where
  "new_task_result d = \<lparr>tr_request_id = [], tr_token_name = [], tr_for_username = [], tr_current_time = [],
     tr_direction = Direction_none, tr_task_type = Type_unknown, tr_column_id = 0,
     tr_order_price = d_of_int64 d 0, tr_mkt_price = d_of_int64 d 0, tr_money = d_of_int64 d 0,
     tr_quantity = d_of_int64 d 0, tr_pnl = d_of_int64 d 0\<rparr>"

definition new_user_task :: "'f double_ops \<Rightarrow> 'f user_task_t" where
  "new_user_task d = \<lparr>ut_request_id = [], ut_token_name = [], ut_direction = [], ut_created_time = [],
     ut_last_begin_time = [], ut_last_end_time = [], ut_column_id = 0, ut_monitor_time_secs = 0,
     ut_status = State_unknown, ut_task_type = Type_unknown, ut_money = d_of_int64 d 0,
     ut_order_price = d_of_int64 d 0, ut_quantity = d_of_int64 d 0\<rparr>"

section \<open>The messages\<close>

definition instrument_of_json :: "'f json \<Rightarrow> instrument_type_t res" where
  "instrument_of_json data_json =
     rbind (get_object data_json) (\<lambda>data_object.
     rbind (obj_at data_object ''symbol'') (\<lambda>j.
     rbind (get_string j) (\<lambda>s. ok \<lparr>instrument_id = s\<rparr>)))"

text \<open>
  \<open>process_pushed_instruments_data\<close>: the list that is handed to \<open>insert_list\<close>; an exception leaves
  before anything was inserted.
\<close>

definition process_pushed_instruments_data :: "'f json list \<Rightarrow> instrument_type_t list res" where
  "process_pushed_instruments_data data_list = rmap instrument_of_json data_list"

definition ticker_of_json :: "'f double_ops \<Rightarrow> 'f json \<Rightarrow> 'f pushed_subscription_data_t res" where
  "ticker_of_json d data_json =
     rbind (get_object data_json) (\<lambda>data_object.
     rbind (obj_at data_object ''s'') (\<lambda>js. rbind (get_string js) (\<lambda>symbol.
     rbind (obj_at data_object ''c'') (\<lambda>jc. rbind (get_string jc) (\<lambda>c. rbind (d_stod d c) (\<lambda>price.
     rbind (obj_at data_object ''o'') (\<lambda>jo. rbind (get_string jo) (\<lambda>p. rbind (d_stod d p) (\<lambda>open24.
     ok \<lparr>pd_instrument_id = symbol, current_price = price, open_24h = open24\<rparr>)))))))))"

definition process_pushed_tickers_data ::
  "'f double_ops \<Rightarrow> 'f json list \<Rightarrow> 'f pushed_subscription_data_t list res" where
  "process_pushed_tickers_data d data_list = rmap (ticker_of_json d) data_list"

section \<open>background_price_saver\<close>

definition to_upper :: "string \<Rightarrow> string" where
  "to_upper s = map toupper s"

text \<open>
  One iteration. \<open>pushed_subs[key]\<close> creates a missing element with an empty identifier and zero
  prices, of which only the prices are then assigned.
\<close>

definition save_price :: "'f double_ops \<Rightarrow> 'f pushed_subscription_data_t \<Rightarrow> 'f subscription_data_map_t \<Rightarrow> 'f subscription_data_map_t" where
  "save_price d item pushed_subs = (let key = to_upper (pd_instrument_id item);
       data = (case pushed_subs key of Some data \<Rightarrow> data
         | None \<Rightarrow> \<lparr>pd_instrument_id = [], current_price = d_of_int64 d 0, open_24h = d_of_int64 d 0\<rparr>)
     in pushed_subs(key \<mapsto> data\<lparr>current_price := current_price item, open_24h := open_24h item\<rparr>))"

definition background_price_saver :: "'f double_ops \<Rightarrow> nat \<Rightarrow> 'f request_handler_t \<Rightarrow> 'f request_handler_t" where
  "background_price_saver d n h = (case consumer_loop get (save_price d) n (tokens_container h) (all_pushed_sub_data h) of
     (q, subs) \<Rightarrow> h\<lparr>tokens_container := q, all_pushed_sub_data := subs\<rparr>)"

section \<open>What the saver computes\<close>

text \<open>The last item for a key, in the order of a list.\<close>

definition last_for :: "string \<Rightarrow> 'f pushed_subscription_data_t list \<Rightarrow> 'f pushed_subscription_data_t option" where
  "last_for k xs = (let ys = filter (\<lambda>x. to_upper (pd_instrument_id x) = k) xs in
     if ys = [] then None else Some (last ys))"

definition saved :: "'f pushed_subscription_data_t \<Rightarrow> 'f pushed_subscription_data_t" where
  "saved x = x\<lparr>pd_instrument_id := []\<rparr>"

lemma last_for_snoc: "last_for k (xs @ [x]) =
    (if to_upper (pd_instrument_id x) = k then Some x else last_for k xs)"
  by (simp add: last_for_def Let_def)

lemma save_price_saved:
  assumes "\<forall>v. m (to_upper (pd_instrument_id x)) = Some v \<longrightarrow> pd_instrument_id v = []"
  shows "save_price d x m = m(to_upper (pd_instrument_id x) \<mapsto> saved x)"
  using assms by (cases "m (to_upper (pd_instrument_id x))") (auto simp: save_price_def saved_def Let_def)

lemma save_price_fold:
  "fold (save_price d) xs Map.empty = (\<lambda>k. map_option saved (last_for k xs))"
proof (induction xs rule: rev_induct)
  case Nil
  then show ?case by (simp add: last_for_def)
next
  case (snoc x xs)
  have "save_price d x (\<lambda>k. map_option saved (last_for k xs))
      = (\<lambda>k. map_option saved (last_for k xs))(to_upper (pd_instrument_id x) \<mapsto> saved x)"
    by (rule save_price_saved) (auto simp: saved_def)
  then show ?case by (auto simp: snoc.IH last_for_snoc)
qed

lemma to_upper_idem [simp]: "to_upper (to_upper s) = to_upper s"
  by (simp add: to_upper_def)

lemma saver_drains:
  assumes "length (m_container (tokens_container h)) \<le> n" "all_pushed_sub_data h = Map.empty"
  shows "m_container (tokens_container (background_price_saver d n h)) = []"
    and "all_pushed_sub_data (background_price_saver d n h) k
      = map_option saved (last_for k (m_container (tokens_container h)))"
  using wc.consumer_drains [OF assms(1), of "save_price d" "Map.empty"]
    save_price_fold [of d "m_container (tokens_container h)"] assms(2)
  by (auto simp: background_price_saver_def split: prod.split)

lemma process_all_or_nothing:
  "process_pushed_tickers_data d js = Inr xs \<Longrightarrow> length xs = length js
    \<and> (\<forall>i<length js. ticker_of_json d (js ! i) = Inr (xs ! i))"
  unfolding process_pushed_tickers_data_def using rmap_length rmap_nth by metis

lemma instruments_spec:
  "process_pushed_instruments_data js = Inr xs \<Longrightarrow>
   map instrument_id xs = map (\<lambda>j. case j of J_object m \<Rightarrow>
     (case map_of m ''symbol'' of Some (J_string s) \<Rightarrow> s | _ \<Rightarrow> []) | _ \<Rightarrow> []) js"
proof (induction js arbitrary: xs)
  case (Cons j js)
  then show ?case
    by (auto simp: process_pushed_instruments_data_def instrument_of_json_def res_simps json_ok)
qed (simp add: process_pushed_instruments_data_def)

section \<open>Properties\<close>

text \<open>
  The price table after the saver drained its queue: an entry for exactly the upper-case symbols
  that were pushed, with the prices of the last push for that symbol in whatever case it was written;
  the identifier inside an entry stays empty.
\<close>

theorem saver_keeps_last_price:
  assumes "length items \<le> n"
  shows "all_pushed_sub_data (background_price_saver d n (request_handler_init\<lparr>tokens_container :=
      append_list items waitable_empty\<rparr>)) k = map_option saved (last_for k items)"
  using saver_drains(2) [of "request_handler_init\<lparr>tokens_container := append_list items waitable_empty\<rparr>" n d k] assms
  by (simp add: request_handler_init_def append_list_def waitable_empty_def)

theorem saver_keeps_last_price_witness:
  "all_pushed_sub_data (background_price_saver whole_doubles 5 (request_handler_init\<lparr>tokens_container := append_list
      [\<lparr>pd_instrument_id = ''btc'', current_price = 1 :: int, open_24h = 2\<rparr>,
       \<lparr>pd_instrument_id = ''BTC'', current_price = 3, open_24h = 4\<rparr>] waitable_empty\<rparr>)) ''BTC''
   = Some \<lparr>pd_instrument_id = [], current_price = 3, open_24h = 4\<rparr>"
  by (subst saver_keeps_last_price)
    (simp_all add: last_for_def saved_def to_upper_def toupper_def is_lower_def)

end
