(* ===== verification/Market_Stream.thy ===== *)
theory Market_Stream
  imports Async Http Market_Data
begin

text \<open>
  binance_prices/src/market_data_stream.cpp: \<open>market_data_stream_t\<close> fetches the list of instruments
  over HTTPS, then opens the WebSocket \<open>/ws/!miniTicker@arr\<close> and turns its frames into prices, and
  opens it again when a read fails or the server closes. Streams and resolvers carry an identity, as
  in the user data stream: an operation succeeds only while its object exists, and the handler of an
  operation whose object was destroyed or replaced runs with an error.
\<close>

section \<open>State\<close>

record mds =
  m_resolver :: "nat option"
  m_stream :: "nat option"
  m_buffer :: "string option"
  m_http_request :: "http_request option"
  m_http_response :: "string option"
  m_fresh :: nat

datatype mds_op =
    Mr_resolve nat
  | Mr_connect nat
  | Mr_handshake nat
  | Mr_write nat
  | Mr_read nat
  | Mw_resolve nat
  | Mw_connect nat
  | Mw_ssl_handshake nat
  | Mw_handshake nat
  | Mw_read nat

datatype 'f mds_out =
    M_log string
  | M_exception cpp_error
  | M_server_name string
  | M_sent http_request
  | M_upgrade string string
  | M_instruments "instrument_type_t list"
  | M_tickers "'f pushed_subscription_data_t list"

text \<open>The error of a read: \<open>net::error::operation_aborted\<close> or another.\<close>

datatype ws_error = Operation_aborted | Other_error string

datatype mds_event =
    M_rest_resolved nat "string option"
  | M_rest_connected nat "string option" "string option"
  | M_rest_handshaken nat "string option"
  | M_rest_written nat "string option"
  | M_rest_read nat "string option" string
  | M_ws_resolved nat "string option"
  | M_ws_connected nat "string option" nat "string option"
  | M_ws_ssl_handshaken nat "string option"
  | M_ws_handshaken nat "string option"
  | M_ws_read nat "ws_error option" string
  | M_control_frame nat bool

record 'f mds_env =
  me_parse :: "string \<Rightarrow> 'f json option"
  me_doubles :: "'f double_ops"

type_synonym 'f mds_handler = "(mds, mds_op, 'f mds_out) handler"
type_synonym 'f mds_conf = "(mds, mds_op, 'f mds_out) conf"

definition mds_rest_api_host :: string where
  "mds_rest_api_host = ''api.binance.com''"

definition mds_ws_host :: string where
  "mds_ws_host = ''stream.binance.com''"

definition new_mds :: mds where
  "new_mds = \<lparr>m_resolver = None, m_stream = None, m_buffer = None, m_http_request = None,
     m_http_response = None, m_fresh = 0\<rparr>"

definition mds_log :: "string \<Rightarrow> 'f mds_handler" where
  "mds_log msg s = ok (s, [Emit (M_log msg)])"

definition on_mds_stream :: "(nat \<Rightarrow> mds_op) \<Rightarrow> 'f mds_handler" where
  "on_mds_stream mk s = (case m_stream s of
     None \<Rightarrow> raise Undefined_behaviour | Some i \<Rightarrow> ok (s, [Start (mk i)]))"

section \<open>The REST phase\<close>

definition mds_rest_api_initiate_connection :: "'f mds_handler" where
  "mds_rest_api_initiate_connection s =
     ok (s\<lparr>m_resolver := Some (m_fresh s), m_fresh := m_fresh s + 1\<rparr>, [Start (Mr_resolve (m_fresh s))])"

definition mds_run :: "'f mds_handler" where
  "mds_run = mds_rest_api_initiate_connection"

definition rest_api_connect_to_resolved_names :: "'f mds_handler" where
  "rest_api_connect_to_resolved_names s =
     ok (s\<lparr>m_resolver := None, m_stream := Some (m_fresh s), m_fresh := m_fresh s + 1\<rparr>,
       [Start (Mr_connect (m_fresh s))])"

definition rest_api_perform_ssl_handshake :: "string option \<Rightarrow> 'f mds_handler" where
  "rest_api_perform_ssl_handshake sni s =
     (if m_stream s = None then raise Undefined_behaviour
      else case sni of
        Some msg \<Rightarrow> mds_log msg s
      | None \<Rightarrow> emit_then (M_server_name mds_rest_api_host) (on_mds_stream Mr_handshake) s)"

definition instruments_request :: http_request where
  "instruments_request =
     set_field ''Accept-Language'' ''en-US,en;q=0.5 --compressed''
     (set_field ''Accept'' ''*/*''
     (set_field ''User-Agent'' ''PostmanRuntime/7.28.1''
     (set_field ''Host'' mds_rest_api_host
     (empty_request\<lparr>h_method := Verb_get, h_target := ''/api/v3/ticker/price''\<rparr>))))"

definition mds_rest_api_prepare_request :: "mds \<Rightarrow> mds" where
  "mds_rest_api_prepare_request s = s\<lparr>m_http_request := Some instruments_request\<rparr>"

definition mds_rest_api_send_request :: "'f mds_handler" where
  "mds_rest_api_send_request s = (case m_http_request s of
     None \<Rightarrow> raise Undefined_behaviour
   | Some r \<Rightarrow> emit_then (M_sent r) (on_mds_stream Mr_write) s)"

definition rest_api_get_all_available_instruments :: "'f mds_handler" where
  "rest_api_get_all_available_instruments s = mds_rest_api_send_request (mds_rest_api_prepare_request s)"

definition mds_rest_api_receive_response :: "'f mds_handler" where
  "mds_rest_api_receive_response s =
     on_mds_stream Mr_read (s\<lparr>m_http_request := None, m_buffer := Some [], m_http_response := Some []\<rparr>)"

section \<open>The WebSocket phase\<close>

definition initiate_websocket_connection :: "'f mds_handler" where
  "initiate_websocket_connection s =
     ok (s\<lparr>m_resolver := Some (m_fresh s), m_fresh := m_fresh s + 1\<rparr>, [Start (Mw_resolve (m_fresh s))])"

definition mds_rest_api_on_data_received ::
  "'f mds_env \<Rightarrow> string option \<Rightarrow> 'f mds_handler" where
  "mds_rest_api_on_data_received env ec s = (case ec of
     Some msg \<Rightarrow> mds_log msg s
   | None \<Rightarrow> (case m_http_response s of
       None \<Rightarrow> raise Undefined_behaviour
     | Some body \<Rightarrow>
         (case rbind (rbind (parse_json (me_parse env) body) get_array) process_pushed_instruments_data of
            Inl e \<Rightarrow> ok (s, [Emit (M_exception e)])
          | Inr instruments \<Rightarrow> emit_then (M_instruments instruments) initiate_websocket_connection s)))"

definition websock_connect_to_resolved_names :: "'f mds_handler" where
  "websock_connect_to_resolved_names s =
     ok (s\<lparr>m_resolver := None, m_stream := Some (m_fresh s), m_fresh := m_fresh s + 1\<rparr>,
       [Start (Mw_connect (m_fresh s))])"

definition negotiate_websocket_connection :: "'f mds_handler" where
  "negotiate_websocket_connection s =
     on_mds_stream Mw_ssl_handshake (s\<lparr>m_http_request := None, m_http_response := None\<rparr>)"

definition websock_perform_ssl_handshake :: "nat \<Rightarrow> string option \<Rightarrow> 'f mds_handler" where
  "websock_perform_ssl_handshake port sni s =
     (let host = mds_ws_host @ '':'' @ nat_to_string port in
      if m_stream s = None then raise Undefined_behaviour
      else case sni of
        Some msg \<Rightarrow> mds_log msg s
      | None \<Rightarrow> emit_then (M_server_name host) negotiate_websocket_connection s)"

definition perform_websocket_handshake :: "'f mds_handler" where
  "perform_websocket_handshake =
     emit_then (M_upgrade mds_ws_host ''/ws/!miniTicker@arr'') (on_mds_stream Mw_handshake)"

definition mds_on_ws_ssl_handshaken :: "'f mds_handler" where
  "mds_on_ws_ssl_handshaken s =
     (if m_stream s = None then raise Undefined_behaviour else perform_websocket_handshake s)"

definition wait_for_messages :: "'f mds_handler" where
  "wait_for_messages s = on_mds_stream Mw_read (s\<lparr>m_buffer := Some []\<rparr>)"

definition interpret_tickers :: "'f mds_env \<Rightarrow> string \<Rightarrow> 'f pushed_subscription_data_t list res" where
  "interpret_tickers env buffer = rbind (rbind (parse_json (me_parse env) buffer) get_array)
     (process_pushed_tickers_data (me_doubles env))"

definition interpret_generic_messages :: "'f mds_env \<Rightarrow> 'f mds_handler" where
  "interpret_generic_messages env s = (case m_buffer s of
     None \<Rightarrow> raise Undefined_behaviour
   | Some buffer \<Rightarrow> (case interpret_tickers env buffer of
       Inl e \<Rightarrow> emit_then (M_exception e) wait_for_messages s
     | Inr tickers \<Rightarrow> emit_then (M_tickers tickers) wait_for_messages s))"

text \<open>Reset the stream and connect again; the read handler and the control callback do it.\<close>

definition mds_reconnect :: "'f mds_handler" where
  "mds_reconnect s = initiate_websocket_connection (s\<lparr>m_stream := None\<rparr>)"

definition mds_on_ws_read :: "'f mds_env \<Rightarrow> ws_error option \<Rightarrow> string \<Rightarrow> 'f mds_handler" where
  "mds_on_ws_read env ec data s = (case ec of
     Some Operation_aborted \<Rightarrow> mds_log ''Operation aborted'' s
   | Some (Other_error msg) \<Rightarrow> emit_then (M_log msg) mds_reconnect s
   | None \<Rightarrow> interpret_generic_messages env (s\<lparr>m_buffer := Some data\<rparr>))"

definition mds_on_control_frame :: "bool \<Rightarrow> 'f mds_handler" where
  "mds_on_control_frame is_close s = (if is_close then mds_reconnect s else ok (s, []))"

definition mds_done :: "string option \<Rightarrow> 'f mds_handler \<Rightarrow> 'f mds_handler" where
  "mds_done ec h = (case ec of Some msg \<Rightarrow> mds_log msg | None \<Rightarrow> h)"

fun mds_handle :: "'f mds_env \<Rightarrow> mds_event \<Rightarrow> 'f mds_handler" where
  "mds_handle env (M_rest_resolved r ec) = mds_done ec rest_api_connect_to_resolved_names"
| "mds_handle env (M_rest_connected i ec sni) = mds_done ec (rest_api_perform_ssl_handshake sni)"
| "mds_handle env (M_rest_handshaken i ec) = mds_done ec rest_api_get_all_available_instruments"
| "mds_handle env (M_rest_written i ec) = mds_done ec mds_rest_api_receive_response"
| "mds_handle env (M_rest_read i ec body) = (\<lambda>s. mds_rest_api_on_data_received env ec
     (if ec = None \<and> m_http_response s \<noteq> None then s\<lparr>m_http_response := Some body\<rparr> else s))"
| "mds_handle env (M_ws_resolved r ec) = mds_done ec websock_connect_to_resolved_names"
| "mds_handle env (M_ws_connected i ec port sni) = mds_done ec (websock_perform_ssl_handshake port sni)"
| "mds_handle env (M_ws_ssl_handshaken i ec) = mds_done ec mds_on_ws_ssl_handshaken"
| "mds_handle env (M_ws_handshaken i ec) = mds_done ec wait_for_messages"
| "mds_handle env (M_ws_read i ec data) = mds_on_ws_read env ec data"
| "mds_handle env (M_control_frame i is_close) = mds_on_control_frame is_close"

fun mds_op_of :: "mds_event \<Rightarrow> mds_op option" where
  "mds_op_of (M_rest_resolved r _) = Some (Mr_resolve r)"
| "mds_op_of (M_rest_connected i _ _) = Some (Mr_connect i)"
| "mds_op_of (M_rest_handshaken i _) = Some (Mr_handshake i)"
| "mds_op_of (M_rest_written i _) = Some (Mr_write i)"
| "mds_op_of (M_rest_read i _ _) = Some (Mr_read i)"
| "mds_op_of (M_ws_resolved r _) = Some (Mw_resolve r)"
| "mds_op_of (M_ws_connected i _ _ _) = Some (Mw_connect i)"
| "mds_op_of (M_ws_ssl_handshaken i _) = Some (Mw_ssl_handshake i)"
| "mds_op_of (M_ws_handshaken i _) = Some (Mw_handshake i)"
| "mds_op_of (M_ws_read i _ _) = Some (Mw_read i)"
| "mds_op_of (M_control_frame _ _) = None"

text \<open>Whether the object an operation was started on still exists.\<close>

fun mds_alive :: "mds \<Rightarrow> mds_op \<Rightarrow> bool" where
  "mds_alive s (Mr_resolve r) = (m_resolver s = Some r)"
| "mds_alive s (Mw_resolve r) = (m_resolver s = Some r)"
| "mds_alive s (Mr_connect i) = (m_stream s = Some i)"
| "mds_alive s (Mr_handshake i) = (m_stream s = Some i)"
| "mds_alive s (Mr_write i) = (m_stream s = Some i)"
| "mds_alive s (Mr_read i) = (m_stream s = Some i)"
| "mds_alive s (Mw_connect i) = (m_stream s = Some i)"
| "mds_alive s (Mw_ssl_handshake i) = (m_stream s = Some i)"
| "mds_alive s (Mw_handshake i) = (m_stream s = Some i)"
| "mds_alive s (Mw_read i) = (m_stream s = Some i)"

fun mds_succeeds :: "mds_event \<Rightarrow> bool" where
  "mds_succeeds (M_rest_resolved _ ec) = (ec = None)"
| "mds_succeeds (M_rest_connected _ ec _) = (ec = None)"
| "mds_succeeds (M_rest_handshaken _ ec) = (ec = None)"
| "mds_succeeds (M_rest_written _ ec) = (ec = None)"
| "mds_succeeds (M_rest_read _ ec _) = (ec = None)"
| "mds_succeeds (M_ws_resolved _ ec) = (ec = None)"
| "mds_succeeds (M_ws_connected _ ec _ _) = (ec = None)"
| "mds_succeeds (M_ws_ssl_handshaken _ ec) = (ec = None)"
| "mds_succeeds (M_ws_handshaken _ ec) = (ec = None)"
| "mds_succeeds (M_ws_read _ ec _) = (ec = None)"
| "mds_succeeds (M_control_frame _ _) = False"

text \<open>Control frames arrive during a read of the existing stream.\<close>

definition mds_enabled :: "'f mds_conf \<Rightarrow> mds_event \<Rightarrow> bool" where
  "mds_enabled c ev = (case ev of
     M_control_frame i _ \<Rightarrow> Mw_read i \<in> set (pend c) \<and> mds_alive (obj c) (Mw_read i)
   | _ \<Rightarrow> mds_succeeds ev \<longrightarrow> (case mds_op_of ev of None \<Rightarrow> True | Some p \<Rightarrow> mds_alive (obj c) p))"

text \<open>\<open>launch_price_watcher\<close>: construction followed by \<open>run()\<close>.\<close>

definition launch_price_watcher :: "'f mds_conf" where
  "launch_price_watcher = conf_of (mds_run new_mds) (conf_init new_mds)"

abbreviation mds_exec :: "'f mds_env \<Rightarrow> mds_event list \<Rightarrow> 'f mds_conf \<Rightarrow> 'f mds_conf option" where
  "mds_exec env \<equiv> run_events mds_op_of mds_enabled (mds_handle env)"

lemmas mds_defs = mds_log_def on_mds_stream_def mds_rest_api_initiate_connection_def mds_run_def
  rest_api_connect_to_resolved_names_def rest_api_perform_ssl_handshake_def
  mds_rest_api_prepare_request_def mds_rest_api_send_request_def
  rest_api_get_all_available_instruments_def mds_rest_api_receive_response_def
  initiate_websocket_connection_def mds_rest_api_on_data_received_def
  websock_connect_to_resolved_names_def negotiate_websocket_connection_def
  websock_perform_ssl_handshake_def perform_websocket_handshake_def mds_on_ws_ssl_handshaken_def
  wait_for_messages_def interpret_generic_messages_def mds_reconnect_def mds_on_ws_read_def
  mds_on_control_frame_def mds_done_def

end
