(* ===== verification/Market_Stream_Properties.thy ===== *)
theory Market_Stream_Properties
  imports Market_Stream
begin

text \<open>
  The invariant of \<open>market_data_stream_t\<close> (at most one operation in flight belongs to an existing
  object, and that object is ready for its handler) and its properties: no undefined behaviour,
  the frames delivered, reconnection, and the failures from which it never recovers.
\<close>

section \<open>The invariant\<close>

fun mds_id :: "mds_op \<Rightarrow> nat" where
  "mds_id (Mr_resolve i) = i"
| "mds_id (Mr_connect i) = i"
| "mds_id (Mr_handshake i) = i"
| "mds_id (Mr_write i) = i"
| "mds_id (Mr_read i) = i"
| "mds_id (Mw_resolve i) = i"
| "mds_id (Mw_connect i) = i"
| "mds_id (Mw_ssl_handshake i) = i"
| "mds_id (Mw_handshake i) = i"
| "mds_id (Mw_read i) = i"

fun mds_stage :: "mds \<Rightarrow> mds_op \<Rightarrow> bool" where
  "mds_stage s (Mr_read _) = (m_http_response s \<noteq> None)"
| "mds_stage s _ = True"

definition mds_live :: "mds \<Rightarrow> mds_op list \<Rightarrow> mds_op list" where
  "mds_live s ps = filter (mds_alive s) ps"

definition mds_good :: "mds \<Rightarrow> mds_op list \<Rightarrow> bool" where
  "mds_good s ps \<longleftrightarrow> length (mds_live s ps) \<le> 1 \<and> (\<forall>p\<in>set (mds_live s ps). mds_stage s p)
     \<and> (\<forall>p\<in>set ps. mds_id p < m_fresh s)"

text \<open>How handlers change the objects: they keep, destroy or replace them by fresh ones.\<close>

definition mds_evolves :: "mds \<Rightarrow> mds \<Rightarrow> bool" where
  "mds_evolves s s' \<longleftrightarrow> m_fresh s \<le> m_fresh s'
     \<and> (\<forall>r. m_resolver s' = Some r \<longrightarrow> m_resolver s = Some r \<or> m_fresh s \<le> r)
     \<and> (\<forall>i. m_stream s' = Some i \<longrightarrow> m_stream s = Some i \<or> m_fresh s \<le> i)"

lemma mds_evolves_dead:
  "mds_evolves s s' \<Longrightarrow> mds_id p < m_fresh s \<Longrightarrow> \<not> mds_alive s p \<Longrightarrow> \<not> mds_alive s' p"
  by (cases p) (auto simp: mds_evolves_def)

lemma mds_live_remove1:
  assumes "mds_good s ps" "p \<in> set ps" "mds_alive s p"
  shows "mds_live s (remove1 p ps) = []"
proof -
  have "mds_live s (remove1 p ps) = remove1 p (mds_live s ps)"
    by (simp add: mds_live_def filter_remove1)
  moreover have "p \<in> set (mds_live s ps)" using assms(2,3) by (simp add: mds_live_def)
  moreover have "length (mds_live s ps) \<le> 1" using assms(1) by (simp add: mds_good_def)
  ultimately show ?thesis by (cases "mds_live s ps") auto
qed

lemma mds_good_remove1: "mds_good s ps \<Longrightarrow> mds_good s (remove1 p ps)"
  using set_remove1_subset [of p ps] set_remove1_subset [of p "mds_live s ps"]
  by (auto simp: mds_good_def mds_live_def filter_remove1 length_remove1)

text \<open>The two shapes of a step: nothing is started, or one operation while no other is alive.\<close>

lemma mds_good_quiet:
  assumes "mds_good s ps" "mds_live s ps = []" "mds_evolves s s'"
  shows "mds_live s' ps = []" "mds_good s' ps"
proof -
  from assms show l: "mds_live s' ps = []"
    by (auto simp: mds_live_def mds_good_def filter_empty_conv dest: mds_evolves_dead)
  from assms have "\<forall>p\<in>set ps. mds_id p < m_fresh s'" by (auto simp: mds_good_def mds_evolves_def)
  with l show "mds_good s' ps" by (simp add: mds_good_def)
qed

lemma mds_good_start:
  assumes "mds_good s ps" "mds_live s ps = []" "mds_evolves s s'"
    and "mds_id q < m_fresh s'" "mds_alive s' q \<longrightarrow> mds_stage s' q"
  shows "mds_good s' (ps @ [q])"
  using mds_good_quiet [OF assms(1-3)] assms(4,5) by (auto simp: mds_good_def mds_live_def)

section \<open>What was delivered\<close>

fun tickers :: "'f mds_out list \<Rightarrow> 'f pushed_subscription_data_t list" where
  "tickers [] = []"
| "tickers (M_tickers xs # os) = xs @ tickers os"
| "tickers (_ # os) = tickers os"

lemma tickers_append [simp]: "tickers (xs @ ys) = tickers xs @ tickers ys"
  by (induction xs rule: tickers.induct) auto

text \<open>The frames that were read, and what one contributes: all of its tickers or none.\<close>

fun ticker_frames :: "mds_event list \<Rightarrow> string list" where
  "ticker_frames [] = []"
| "ticker_frames (M_ws_read i None data # evs) = data # ticker_frames evs"
| "ticker_frames (_ # evs) = ticker_frames evs"

lemma ticker_frames_append [simp]: "ticker_frames (xs @ ys) = ticker_frames xs @ ticker_frames ys"
  by (induction xs rule: ticker_frames.induct) auto

definition frame_tickers :: "'f mds_env \<Rightarrow> string \<Rightarrow> 'f pushed_subscription_data_t list" where
  "frame_tickers env data = (case interpret_tickers env data of Inl _ \<Rightarrow> [] | Inr xs \<Rightarrow> xs)"

definition frames_tickers :: "'f mds_env \<Rightarrow> mds_event list \<Rightarrow> 'f pushed_subscription_data_t list" where
  "frames_tickers env evs = concat (map (frame_tickers env) (ticker_frames evs))"

lemma frames_tickers_append [simp]:
  "frames_tickers env (xs @ ys) = frames_tickers env xs @ frames_tickers env ys"
  by (simp add: frames_tickers_def)

definition mds_inv :: "'f mds_env \<Rightarrow> 'f mds_conf \<Rightarrow> mds_event list \<Rightarrow> 'f mds_conf \<Rightarrow> bool" where
  "mds_inv env c0 evs c \<longleftrightarrow> fault c = None \<and> mds_good (obj c) (pend c)
     \<and> tickers (outs c) = frames_tickers env evs"

text \<open>What a handler may do, given the operations that stay in flight.\<close>

definition mds_ok :: "'f mds_env \<Rightarrow> mds_event \<Rightarrow> mds_op list \<Rightarrow>
    (mds \<times> (mds_op, 'f mds_out) action list) res \<Rightarrow> bool" where
  "mds_ok env ev ps r \<longleftrightarrow> (\<exists>s' as. r = Inr (s', as) \<and> mds_good s' (ps @ started as)
     \<and> tickers (emitted as) = frames_tickers env [ev])"

lemma mds_okI: "mds_ok env ev ps (Inr (s', as)) \<longleftrightarrow>
    mds_good s' (ps @ started as) \<and> tickers (emitted as) = frames_tickers env [ev]"
  by (simp add: mds_ok_def)

lemma mds_ok_step:
  assumes "mds_inv env c0 evs c"
    and "mds_ok env ev (case mds_op_of ev of None \<Rightarrow> pend c | Some p \<Rightarrow> remove1 p (pend c)) (mds_handle env ev (obj c))"
  shows "mds_inv env c0 (evs @ [ev]) (happen mds_op_of (mds_handle env) ev c)"
  using assms by (auto simp: mds_ok_def mds_inv_def happen_def conf_of_def Let_def split: option.splits)

lemma mds_evolves_refl [simp]: "mds_evolves s s"
  by (simp add: mds_evolves_def)

lemma mds_success_ok:
  assumes "mds_good s ps" "mds_live s ps = []"
    and "mds_succeeds ev" "mds_op_of ev = Some p" "mds_alive s p" "mds_stage s p" "mds_id p < m_fresh s"
  shows "mds_ok env ev ps (mds_handle env ev s)"
  using assms(3-)
  by (cases ev)
   (auto simp: mds_okI mds_defs emit_then_def frames_tickers_def frame_tickers_def mds_evolves_def Let_def
      split: option.split sum.split
      intro!: mds_good_start [OF assms(1,2)] mds_good_quiet(2) [OF assms(1,2)])

text \<open>A failure logs, or resets the stream and resolves the name again.\<close>

lemma mds_reconnect_ok:
  assumes "\<forall>p\<in>set ps. mds_id p < m_fresh s"
  shows "\<exists>s'. mds_reconnect s = Inr (s', [Start (Mw_resolve (m_fresh s))])
    \<and> mds_good s' (ps @ [Mw_resolve (m_fresh s)])"
proof -
  let ?s = "s\<lparr>m_stream := None, m_resolver := Some (m_fresh s), m_fresh := m_fresh s + 1\<rparr>"
  have "\<not> mds_alive ?s p" if "p \<in> set ps" for p
    using assms that by (cases p) auto
  then have "mds_live ?s ps = []" by (simp add: mds_live_def filter_empty_conv)
  moreover have "\<forall>p\<in>set ps. mds_id p < m_fresh ?s" using assms by auto
  ultimately show ?thesis by (simp add: mds_defs mds_good_def) (simp add: mds_live_def)
qed

lemma mds_failure_ok:
  fixes env :: "'f mds_env"
  assumes "mds_good s ps" "\<not> mds_succeeds ev"
  shows "mds_ok env ev ps (mds_handle env ev s)"
proof -
  obtain s' where r: "mds_reconnect s = (Inr (s', [Start (Mw_resolve (m_fresh s))])
      :: (mds \<times> (mds_op, 'f mds_out) action list) res)"
    "mds_good s' (ps @ [Mw_resolve (m_fresh s)])"
    using mds_reconnect_ok [of ps s] assms(1) by (auto simp: mds_good_def)
  from assms r show ?thesis
    by (cases ev) (auto simp: mds_okI mds_log_def mds_done_def mds_rest_api_on_data_received_def
        mds_on_ws_read_def mds_on_control_frame_def emit_then_def frames_tickers_def
        split: ws_error.split option.split)
qed

lemma mds_inv_step:
  assumes inv: "mds_inv env c0 evs c" and ev: "can_happen mds_op_of mds_enabled ev c"
  shows "mds_inv env c0 (evs @ [ev]) (happen mds_op_of (mds_handle env) ev c)"
proof (rule mds_ok_step [OF inv])
  let ?ps = "case mds_op_of ev of None \<Rightarrow> pend c | Some p \<Rightarrow> remove1 p (pend c)"
  from inv have good: "mds_good (obj c) (pend c)" by (simp add: mds_inv_def)
  then have good': "mds_good (obj c) ?ps" by (cases "mds_op_of ev") (auto dest: mds_good_remove1)
  show "mds_ok env ev ?ps (mds_handle env ev (obj c))"
  proof (cases "mds_succeeds ev")
    case True
    then obtain p where p: "mds_op_of ev = Some p" "mds_alive (obj c) p"
      using ev by (cases ev) (auto simp: can_happen_def mds_enabled_def)
    with ev have pend: "p \<in> set (pend c)" by (simp add: can_happen_def)
    with good p have "mds_stage (obj c) p" "mds_id p < m_fresh (obj c)"
      by (auto simp: mds_good_def mds_live_def)
    with mds_success_ok [OF good' _ True p(1,2)] mds_live_remove1 [OF good pend p(2)] p(1) show ?thesis by simp
  qed (rule mds_failure_ok [OF good'])
qed

lemma mds_inv_start: "c = launch_price_watcher \<Longrightarrow> mds_inv env c [] c"
  by (simp add: mds_inv_def launch_price_watcher_def mds_defs new_mds_def async_defs mds_good_def
      mds_live_def frames_tickers_def)

interpretation md: safe_client mds_op_of mds_enabled "mds_handle env"
  "\<lambda>c. c = launch_price_watcher" "mds_inv env" for env :: "'f mds_env"
  by unfold_locales (erule mds_inv_start, erule (1) mds_inv_step, simp add: mds_inv_def)

lemma mds_reached:
  "mds_exec env evs launch_price_watcher = Some c \<Longrightarrow> mds_inv env launch_price_watcher evs c"
  by (rule md.inv_run) simp_all

section \<open>The price watcher\<close>

text \<open>
  The effects of the stream's outputs on the containers of \<open>request_handler_t\<close>, and the program: the
  stream's events interleaved with iterations of the saver thread.
\<close>

fun mds_effect :: "'f mds_out \<Rightarrow> 'f request_handler_t \<Rightarrow> 'f request_handler_t" where
  "mds_effect (M_instruments xs) h = h\<lparr>all_listed_instruments := insert_list xs (all_listed_instruments h)\<rparr>"
| "mds_effect (M_tickers xs) h = h\<lparr>tokens_container := append_list xs (tokens_container h)\<rparr>"
| "mds_effect _ h = h"

datatype prices_event = Stream_event mds_event | Saver_iteration

record 'f prices =
  price_stream :: "'f mds_conf"
  price_handler :: "'f request_handler_t"

definition prices_main :: "'f prices" where
  "prices_main = \<lparr>price_stream = launch_price_watcher, price_handler = request_handler_init\<rparr>"

fun prices_step :: "'f mds_env \<Rightarrow> prices_event \<Rightarrow> 'f prices \<Rightarrow> 'f prices" where
  "prices_step env (Stream_event ev) s =
     (if can_happen mds_op_of mds_enabled ev (price_stream s)
      then let c = happen mds_op_of (mds_handle env) ev (price_stream s) in
        \<lparr>price_stream = c,
         price_handler = fold mds_effect (drop (length (outs (price_stream s))) (outs c)) (price_handler s)\<rparr>
      else s)"
| "prices_step env Saver_iteration s =
     s\<lparr>price_handler := background_price_saver (me_doubles env) 1 (price_handler s)\<rparr>"

text \<open>The table that the saver will have when the queue is empty.\<close>

definition final_table :: "'f double_ops \<Rightarrow> 'f request_handler_t \<Rightarrow> 'f subscription_data_map_t" where
  "final_table d h = fold (save_price d) (m_container (tokens_container h)) (all_pushed_sub_data h)"

lemma saver_final_table: "final_table d (background_price_saver d n h) = final_table d h"
proof -
  let ?r = "consumer_loop get (save_price d) n (tokens_container h) (all_pushed_sub_data h)"
  from wc.consumer_loop_fold [of "save_price d" n "tokens_container h" "all_pushed_sub_data h"]
  have r: "snd ?r = fold (save_price d) (take n (m_container (tokens_container h))) (all_pushed_sub_data h)"
    "m_container (fst ?r) = drop n (m_container (tokens_container h))" by auto
  have "fold (save_price d) (m_container (tokens_container h)) (all_pushed_sub_data h) =
      fold (save_price d) (drop n (m_container (tokens_container h)))
        (fold (save_price d) (take n (m_container (tokens_container h))) (all_pushed_sub_data h))"
    by (metis append_take_drop_id fold_append comp_apply)
  with r show ?thesis by (cases ?r) (simp add: background_price_saver_def final_table_def)
qed

lemma effect_final_table:
  "final_table d (fold mds_effect os h) = fold (save_price d) (tickers os) (final_table d h)"
proof (induction os arbitrary: h)
  case (Cons m os)
  then show ?case by (cases m) (simp_all add: final_table_def append_list_def)
qed simp

lemma happen_outs: "\<exists>os. outs (happen op_of h ev c) = outs c @ os"
  by (cases "h ev (obj c)") (auto simp: happen_def conf_of_def split: option.split)

text \<open>The invariant of the whole program.\<close>

definition prices_inv :: "'f mds_env \<Rightarrow> 'f prices \<Rightarrow> bool" where
  "prices_inv env s \<longleftrightarrow> (\<exists>evs. mds_exec env evs launch_price_watcher = Some (price_stream s))
     \<and> final_table (me_doubles env) (price_handler s)
       = fold (save_price (me_doubles env)) (tickers (outs (price_stream s))) Map.empty"

lemma prices_inv_start:
  fixes env :: "'f mds_env"
  shows "prices_inv env prices_main"
proof -
  have "\<exists>evs. mds_exec env evs launch_price_watcher = Some launch_price_watcher"
    by (intro exI [of _ "[]"]) simp
  moreover have "tickers (outs (launch_price_watcher :: 'f mds_conf)) = []"
    by (simp add: launch_price_watcher_def mds_defs async_defs)
  ultimately show ?thesis
    by (simp add: prices_inv_def prices_main_def final_table_def request_handler_init_def waitable_empty_def)
qed

lemma prices_inv_step:
  assumes "prices_inv env s"
  shows "prices_inv env (prices_step env ev s)"
proof (cases ev)
  case (Stream_event e)
  show ?thesis
  proof (cases "can_happen mds_op_of mds_enabled e (price_stream s)")
    case True
    let ?c = "happen mds_op_of (mds_handle env) e (price_stream s)"
    from assms obtain evs where "mds_exec env evs launch_price_watcher = Some (price_stream s)"
      by (auto simp: prices_inv_def)
    with True have run: "mds_exec env (evs @ [e]) launch_price_watcher = Some ?c"
      by (simp add: run_events_snoc)
    obtain os where os: "outs ?c = outs (price_stream s) @ os" using happen_outs [of mds_op_of "mds_handle env" e "price_stream s"] by blast
    have "final_table (me_doubles env) (fold mds_effect os (price_handler s))
        = fold (save_price (me_doubles env)) (tickers (outs ?c)) Map.empty"
      using assms by (simp add: prices_inv_def effect_final_table os)
    with run True Stream_event os show ?thesis by (auto simp: prices_inv_def Let_def)
  qed (use assms Stream_event in simp)
next
  case Saver_iteration
  with assms show ?thesis by (simp add: prices_inv_def saver_final_table)
qed

lemma prices_inv_run: "prices_inv env (fold (prices_step env) evs prices_main)"
  by (induction evs rule: rev_induct) (simp_all add: prices_inv_start prices_inv_step)

lemma stream_events_run:
  "mds_exec env evs (price_stream s) = Some c \<Longrightarrow>
   price_stream (fold (prices_step env) (map Stream_event evs) s) = c"
  by (induction evs arbitrary: s) (auto simp: Let_def split: if_splits)

section \<open>Properties\<close>


definition price_env :: "int mds_env" where
  "price_env = \<lparr>me_parse = (\<lambda>s. if s = ''btc'' then Some (J_array [J_object
       [(''c'', J_string ''7''), (''o'', J_string ''5''), (''s'', J_string ''btc'')]])
     else if s = ''list'' then Some (J_array [J_object [(''symbol'', J_string ''BTC'')]]) else None),
     me_doubles = whole_doubles\<rparr>"

definition rest_phase :: "mds_event list" where
  "rest_phase = [M_rest_resolved 0 None, M_rest_connected 1 None None, M_rest_handshaken 1 None,
     M_rest_written 1 None, M_rest_read 1 None ''list'']"

text \<open>The events that open the WebSocket, from the identity of its resolver.\<close>

definition ws_phase :: "nat \<Rightarrow> mds_event list" where
  "ws_phase n = [M_ws_resolved n None, M_ws_connected (n + 1) None 9443 None,
     M_ws_ssl_handshaken (n + 1) None, M_ws_handshaken (n + 1) None]"

lemma price_run:
  "\<exists>c. mds_exec price_env (rest_phase @ ws_phase 2 @ [M_ws_read 3 None ''btc'', M_ws_read 3 None ''junk''])
     launch_price_watcher = Some c \<and> pend c = [Mw_read 3]"
  by (simp add: rest_phase_def ws_phase_def launch_price_watcher_def mds_defs async_defs mds_enabled_def
      new_mds_def Let_def interpret_tickers_def parse_json_def json_get_defs price_env_def
      process_pushed_tickers_data_def process_pushed_instruments_data_def ticker_of_json_def
      instrument_of_json_def whole_doubles_def)


text \<open>
  A frame is delivered all or nothing, and in order: the tickers put into the container are the
  concatenation, over the frames read, of all tickers of a well-formed frame and none of another.
\<close>

theorem mds_delivers_frames:
  assumes "mds_exec env evs launch_price_watcher = Some c"
  shows "tickers (outs c) = concat (map (frame_tickers env) (ticker_frames evs))"
  using mds_reached [OF assms] by (simp add: mds_inv_def frames_tickers_def)

lemma price_frames:
  "frame_tickers price_env ''btc'' = [\<lparr>pd_instrument_id = ''btc'', current_price = 7, open_24h = 5\<rparr>]"
  "frame_tickers price_env ''junk'' = []"
  by (simp_all add: frame_tickers_def interpret_tickers_def price_env_def parse_json_def json_get_defs
      process_pushed_tickers_data_def ticker_of_json_def whole_doubles_def is_digit_def)

theorem mds_delivers_frames_witness:
  "\<exists>c :: int mds_conf. tickers (outs c) = [\<lparr>pd_instrument_id = ''btc'', current_price = 7, open_24h = 5\<rparr>]"
proof -
  obtain c where c: "mds_exec price_env (rest_phase @ ws_phase 2 @ [M_ws_read 3 None ''btc'', M_ws_read 3 None ''junk''])
     launch_price_watcher = Some c" using price_run by blast
  from mds_delivers_frames [OF c] show ?thesis
    by (intro exI [of _ c]) (simp add: price_frames rest_phase_def ws_phase_def)
qed

text \<open>The two steps of reconnecting: the name is resolved again, and the handshakes succeed.\<close>

lemma reconnect_handlers:
  "mds_handle env (M_control_frame i True) s = ok (s\<lparr>m_stream := None, m_resolver := Some (m_fresh s),
     m_fresh := m_fresh s + 1\<rparr>, [Start (Mw_resolve (m_fresh s))])"
  "mds_handle env (M_ws_read i (Some (Other_error msg)) data) s = ok (s\<lparr>m_stream := None,
     m_resolver := Some (m_fresh s), m_fresh := m_fresh s + 1\<rparr>, [Emit (M_log msg), Start (Mw_resolve (m_fresh s))])"
  by (simp_all add: mds_defs emit_then_def)

lemma reconnect_starts:
  assumes "pend c = [Mw_read i]" "m_stream (obj c) = Some i" "fault c = None"
    and "ev \<in> {M_control_frame i True, M_ws_read i (Some (Other_error msg)) data}"
  shows "can_happen mds_op_of mds_enabled ev c"
    and "(let c1 = happen mds_op_of (mds_handle env) ev c in
      pend c1 \<in> {[Mw_resolve (m_fresh (obj c))], [Mw_read i, Mw_resolve (m_fresh (obj c))]} \<and> fault c1 = None
      \<and> m_resolver (obj c1) = Some (m_fresh (obj c)) \<and> m_fresh (obj c1) = m_fresh (obj c) + 1)"
proof -
  obtain s os where c: "c = \<lparr>obj = s, pend = [Mw_read i], outs = os, fault = None\<rparr>" "m_stream s = Some i"
    using assms(1-3) by (cases c) auto
  from assms(4) c(2) show "can_happen mds_op_of mds_enabled ev c"
    unfolding c(1) by (elim insertE emptyE) (simp_all add: async_defs mds_enabled_def)
  from assms(4) c(2) show "let c1 = happen mds_op_of (mds_handle env) ev c in
      pend c1 \<in> {[Mw_resolve (m_fresh (obj c))], [Mw_read i, Mw_resolve (m_fresh (obj c))]} \<and> fault c1 = None
      \<and> m_resolver (obj c1) = Some (m_fresh (obj c)) \<and> m_fresh (obj c1) = m_fresh (obj c) + 1"
    unfolding c(1) by (elim insertE emptyE)
      (simp_all add: reconnect_handlers happen_def conf_of_def Let_def del: mds_handle.simps)
qed

lemma port_digits:
  "char_of (57 :: nat) = CHR ''9''" "char_of (52 :: nat) = CHR ''4''" "char_of (51 :: nat) = CHR ''3''"
  by code_simp+

lemma port_text: "nat_to_string 9443 = ''9443''"
  by (simp add: nat_to_string.simps [of 9443] nat_to_string.simps [of 944] nat_to_string.simps [of 94]
      nat_to_string.simps [of 9] port_digits)

lemma ws_phase_opens:
  assumes "pend c \<in> {[Mw_resolve n], [Mw_read i, Mw_resolve n]}" "fault c = None"
    and "m_resolver (obj c) = Some n" "m_fresh (obj c) = n + 1"
  shows "\<exists>c'. mds_exec env (ws_phase n) c = Some c' \<and> Mw_read (n + 1) \<in> set (pend c')
    \<and> m_stream (obj c') = Some (n + 1) \<and> M_server_name ''stream.binance.com:9443'' \<in> set (outs c')"
proof -
  obtain s ps os where c: "c = \<lparr>obj = s, pend = ps, outs = os, fault = None\<rparr>"
    "ps = [Mw_resolve n] \<or> ps = [Mw_read i, Mw_resolve n]" "m_resolver s = Some n" "m_fresh s = n + 1"
    using assms by (cases c) auto
  from c(2-) port_text show ?thesis unfolding c(1)
    by (elim disjE) (simp_all add: ws_phase_def mds_defs async_defs mds_enabled_def mds_ws_host_def Let_def)
qed



text \<open>
  Any failure before the first or a later connection is open is final: the price watcher has
  nothing in flight any more and no event can happen.
\<close>

theorem mds_setup_failure_final:
  assumes "can_happen mds_op_of mds_enabled ev c" "pend c = [p]" "mds_op_of ev = Some p"
    and "\<not> mds_succeeds ev" "\<forall>i. p \<noteq> Mw_read i"
  shows "pend (happen mds_op_of (mds_handle env) ev c) = []
    \<and> \<not> can_happen mds_op_of mds_enabled ev' (happen mds_op_of (mds_handle env) ev c)"
proof -
  have "pend (happen mds_op_of (mds_handle env) ev c) = []"
    using assms by (cases ev) (auto simp: happen_def conf_of_def mds_defs)
  then show ?thesis
    by (cases ev') (auto simp: can_happen_def mds_enabled_def)
qed

theorem mds_setup_failure_final_witness:
  "pend (happen mds_op_of (mds_handle price_env) (M_rest_resolved 0 (Some ''no network'')) launch_price_watcher) = []"
proof -
  have "can_happen mds_op_of mds_enabled (M_rest_resolved 0 (Some ''no network'')) (launch_price_watcher :: int mds_conf)"
    "pend (launch_price_watcher :: int mds_conf) = [Mr_resolve 0]"
    by (simp_all add: launch_price_watcher_def mds_defs async_defs mds_enabled_def new_mds_def)
  from mds_setup_failure_final [OF this] show ?thesis by simp
qed

text \<open>
  C9. From the socket to the table: however the saver's iterations interleave with the stream's
  events, once its queue is empty the price table holds exactly the last ticker of each upper-case
  symbol over everything the stream has delivered.
\<close>

theorem price_table_is_last_tickers:
  assumes "s = fold (prices_step env) evs prices_main"
    and "length (m_container (tokens_container (price_handler s))) \<le> n"
  shows "all_pushed_sub_data (background_price_saver (me_doubles env) n (price_handler s)) k
    = map_option saved (last_for k (tickers (outs (price_stream s))))"
proof -
  let ?d = "me_doubles env" and ?h = "price_handler s"
  let ?r = "consumer_loop get (save_price ?d) n (tokens_container ?h) (all_pushed_sub_data ?h)"
  have "snd ?r = final_table ?d ?h"
    using wc.consumer_drains [OF assms(2), of "save_price ?d" "all_pushed_sub_data ?h"]
    by (simp add: final_table_def)
  moreover have "final_table ?d ?h = fold (save_price ?d) (tickers (outs (price_stream s))) Map.empty"
    using prices_inv_run [of env evs] assms(1) by (simp add: prices_inv_def)
  ultimately have "snd ?r k = map_option saved (last_for k (tickers (outs (price_stream s))))"
    by (simp add: save_price_fold)
  then show ?thesis by (cases ?r) (simp add: background_price_saver_def)
qed

lemma upper_btc: "to_upper ''btc'' = ''BTC''"
  by code_simp

theorem price_table_is_last_tickers_witness:
  "\<exists>s :: int prices. all_pushed_sub_data (background_price_saver whole_doubles (length (m_container (tokens_container
      (price_handler s)))) (price_handler s)) ''BTC''
    = Some \<lparr>pd_instrument_id = [], current_price = 7, open_24h = 5\<rparr>"
proof -
  let ?evs = "rest_phase @ ws_phase 2 @ [M_ws_read 3 None ''btc'', M_ws_read 3 None ''junk'']"
  obtain c where c: "mds_exec price_env ?evs launch_price_watcher = Some c" using price_run by blast
  obtain s where s: "s = fold (prices_step price_env) (map Stream_event ?evs) prices_main" by blast
  with stream_events_run [of price_env ?evs prices_main c] c have "price_stream s = c"
    by (simp add: prices_main_def)
  moreover have "tickers (outs c) = [\<lparr>pd_instrument_id = ''btc'', current_price = 7, open_24h = 5\<rparr>]"
    using mds_reached [OF c] price_frames
    by (simp add: mds_inv_def frames_tickers_def rest_phase_def ws_phase_def)
  moreover have "me_doubles price_env = whole_doubles" by (simp add: price_env_def)
  ultimately show ?thesis
    using price_table_is_last_tickers [OF s order_refl, of "''BTC''"]
    by (intro exI [of _ s]) (simp add: last_for_def upper_btc saved_def)
qed

end
