(* ===== verification/Fields_Alloc.thy ===== *)
theory Fields_Alloc
  imports Prelude
begin

text \<open>
  binance_prices/include/fields_alloc.hpp: \<open>static_pool\<close>, a bump allocator over one block that takes
  its memory back when the last block was released, and \<open>fields_alloc\<close>, the reference-counted handle
  to it. \<open>std::size_t\<close> and addresses are 64-bit words in a flat address space.
\<close>

section \<open>The pool\<close>

text \<open>\<open>sp_base\<close> is the address \<open>this + 1\<close>, where the memory of the pool starts.\<close>

record static_pool =
  sp_base :: "64 word"
  sp_size :: "64 word"
  sp_refs :: "64 word"
  sp_count :: "64 word"
  sp_p :: "64 word"

definition pool_end :: "static_pool \<Rightarrow> 64 word" where
  "pool_end s = sp_base s + sp_size s"

definition pool_construct :: "64 word \<Rightarrow> 64 word \<Rightarrow> static_pool" where
  "pool_construct address sz = \<lparr>sp_base = address, sp_size = sz, sp_refs = 1, sp_count = 0,
     sp_p = address\<rparr>"

definition pool_share :: "static_pool \<Rightarrow> static_pool" where
  "pool_share s = s\<lparr>sp_refs := sp_refs s + 1\<rparr>"

text \<open>\<open>None\<close>: the pool was deleted.\<close>

definition pool_destroy :: "static_pool \<Rightarrow> static_pool option" where
  "pool_destroy s = (if sp_refs s \<noteq> 0 then Some (s\<lparr>sp_refs := sp_refs s - 1\<rparr>) else None)"

definition pool_alloc :: "64 word \<Rightarrow> static_pool \<Rightarrow> (64 word \<times> static_pool) res" where
  "pool_alloc n s = (let last = sp_p s + n in
     if pool_end s \<le> last then raise Bad_alloc
     else ok (sp_p s, s\<lparr>sp_count := sp_count s + 1, sp_p := last\<rparr>))"

definition pool_dealloc :: "static_pool \<Rightarrow> static_pool" where
  "pool_dealloc s = (let s' = s\<lparr>sp_count := sp_count s - 1\<rparr> in
     if sp_count s' \<noteq> 0 then s' else s'\<lparr>sp_p := sp_base s'\<rparr>)"

section \<open>The allocator\<close>

text \<open>An allocator object has an address and points to its pool.\<close>

record fields_alloc =
  fa_address :: "64 word"
  fa_pool :: "64 word"

definition allocate :: "64 word \<Rightarrow> 64 word \<Rightarrow> static_pool \<Rightarrow> (64 word \<times> static_pool) res" where
  "allocate sizeof_T n s = pool_alloc (n * sizeof_T) s"

text \<open>\<open>operator==\<close> compares the addresses of the members \<open>pool_\<close>, which are those of the objects.\<close>

definition fields_alloc_eq :: "fields_alloc \<Rightarrow> fields_alloc \<Rightarrow> bool" where
  "fields_alloc_eq lhs rhs \<longleftrightarrow> fa_address lhs = fa_address rhs"

definition fields_alloc_neq :: "fields_alloc \<Rightarrow> fields_alloc \<Rightarrow> bool" where
  "fields_alloc_neq lhs rhs \<longleftrightarrow> \<not> fields_alloc_eq lhs rhs"

definition fields_alloc_copy :: "64 word \<Rightarrow> fields_alloc \<Rightarrow> static_pool \<Rightarrow> fields_alloc \<times> static_pool" where
  "fields_alloc_copy address other s = (\<lparr>fa_address = address, fa_pool = fa_pool other\<rparr>, pool_share s)"

section \<open>Runs of allocations\<close>

text \<open>
  The blocks handed out and not yet given back, as address and size; \<open>Dealloc_block i\<close> gives the
  \<open>i\<close>-th back. A run that fails with \<open>Bad_alloc\<close> leaves the pool as it was.
\<close>

datatype pool_event = Alloc_block "64 word" | Dealloc_block nat

type_synonym pool_state = "static_pool \<times> (64 word \<times> 64 word) list"

fun pool_step :: "pool_event \<Rightarrow> pool_state \<Rightarrow> pool_state" where
  "pool_step (Alloc_block n) (s, blocks) = (case pool_alloc n s of
     Inl _ \<Rightarrow> (s, blocks) | Inr (a, s') \<Rightarrow> (s', blocks @ [(a, n)]))"
| "pool_step (Dealloc_block i) (s, blocks) =
     (if i < length blocks then (pool_dealloc s, erase_at i blocks) else (s, blocks))"

definition block_range :: "64 word \<times> 64 word \<Rightarrow> nat set" where
  "block_range b = {unat (fst b)..<unat (fst b) + unat (snd b)}"

text \<open>Addresses and sizes of the lower half of the address space.\<close>

definition pool_fits :: "static_pool \<Rightarrow> bool" where
  "pool_fits s \<longleftrightarrow> unat (sp_base s) + unat (sp_size s) < 2 ^ 63"

fun small_event :: "pool_event \<Rightarrow> bool" where
  "small_event (Alloc_block n) = (unat n < 2 ^ 63)"
| "small_event (Dealloc_block i) = True"

fun disjoint_blocks :: "(64 word \<times> 64 word) list \<Rightarrow> bool" where
  "disjoint_blocks [] = True"
| "disjoint_blocks (b # bs) = ((\<forall>c\<in>set bs. block_range b \<inter> block_range c = {}) \<and> disjoint_blocks bs)"

definition pool_inv :: "64 word \<Rightarrow> 64 word \<Rightarrow> nat \<Rightarrow> pool_state \<Rightarrow> bool" where
  "pool_inv base sz n = (\<lambda>(s, blocks). sp_base s = base \<and> sp_size s = sz \<and> pool_fits s
     \<and> unat base \<le> unat (sp_p s) \<and> unat (sp_p s) \<le> unat base + unat sz
     \<and> sp_count s = of_nat (length blocks) \<and> length blocks \<le> n
     \<and> (\<forall>b\<in>set blocks. block_range b \<subseteq> {unat base..<unat (sp_p s)}) \<and> disjoint_blocks blocks)"

lemma unat_add_small: "unat a < 2 ^ 63 \<Longrightarrow> unat b < 2 ^ 63 \<Longrightarrow> unat (a + b :: 64 word) = unat a + unat b"
  by (simp add: unat_word_ariths)

lemma pool_end_unat: "pool_fits s \<Longrightarrow> unat (pool_end s) = unat (sp_base s) + unat (sp_size s)"
  by (auto simp: pool_fits_def pool_end_def intro!: unat_add_small)

text \<open>When an allocation succeeds.\<close>

lemma pool_alloc_iff:
  assumes "pool_fits s" "unat n < 2 ^ 63" "unat (sp_p s) \<le> unat (sp_base s) + unat (sp_size s)"
  shows "pool_alloc n s = (if unat (sp_p s) + unat n < unat (sp_base s) + unat (sp_size s)
    then ok (sp_p s, s\<lparr>sp_count := sp_count s + 1, sp_p := sp_p s + n\<rparr>) else raise Bad_alloc)"
proof -
  have "unat (sp_p s + n) = unat (sp_p s) + unat n"
    using assms by (intro unat_add_small) (auto simp: pool_fits_def)
  then have "pool_end s \<le> sp_p s + n \<longleftrightarrow> unat (sp_base s) + unat (sp_size s) \<le> unat (sp_p s) + unat n"
    using pool_end_unat [OF assms(1)] by (simp add: word_le_nat_alt)
  then show ?thesis by (simp add: pool_alloc_def Let_def not_less)
qed

lemma disjoint_blocks_snoc:
  "disjoint_blocks (bs @ [b]) \<longleftrightarrow> disjoint_blocks bs \<and> (\<forall>c\<in>set bs. block_range c \<inter> block_range b = {})"
  by (induction bs) auto

lemma disjoint_blocks_erase: "disjoint_blocks bs \<Longrightarrow> disjoint_blocks (erase_at i bs)"
proof (induction bs arbitrary: i)
  case (Cons b bs)
  then show ?case using set_erase_at [of "i - 1" bs] by (cases i) auto
qed (simp add: erase_at_def)

lemma length_erase_at: "i < length bs \<Longrightarrow> length (erase_at i bs) = length bs - 1"
  by (simp add: erase_at_def)

lemma pool_inv_alloc:
  assumes inv: "pool_inv base sz k (s, blocks)" and n: "unat n < 2 ^ 63"
  shows "pool_inv base sz (Suc k) (pool_step (Alloc_block n) (s, blocks))"
proof (cases "unat (sp_p s) + unat n < unat base + unat sz")
  case False
  with inv pool_alloc_iff [of s n] n show ?thesis by (auto simp: pool_inv_def)
next
  case True
  from inv have s: "sp_base s = base" "sp_size s = sz" "pool_fits s"
    "unat (sp_p s) \<le> unat base + unat sz" by (auto simp: pool_inv_def)
  from True s have "unat (sp_p s + n) = unat (sp_p s) + unat n"
    using n by (intro unat_add_small) (auto simp: pool_fits_def)
  with True s inv pool_alloc_iff [of s n] n show ?thesis
    by (fastforce simp: pool_inv_def pool_fits_def disjoint_blocks_snoc block_range_def)
qed

lemma of_nat_zero_small: "m < 2 ^ 64 \<Longrightarrow> of_nat m = (0 :: 64 word) \<longleftrightarrow> m = 0"
  using nat_dvd_not_less [of m "2 ^ 64"] by (auto simp: word_of_nat_eq_0_iff)

lemma pool_inv_dealloc:
  assumes inv: "pool_inv base sz k (s, blocks)" and "k < 2 ^ 64"
  shows "pool_inv base sz k (pool_step (Dealloc_block i) (s, blocks))"
proof (cases "i < length blocks")
  case True
  then have len: "length (erase_at i blocks) = length blocks - 1" by (rule length_erase_at)
  have count: "sp_count s - 1 = of_nat (length blocks - 1)"
    using inv True by (simp add: pool_inv_def of_nat_diff)
  have zero: "of_nat (length blocks - 1) = (0 :: 64 word) \<longleftrightarrow> length blocks - 1 = 0"
  proof (rule of_nat_zero_small)
    have "length blocks \<le> k" using inv by (simp add: pool_inv_def)
    with assms(2) show "length blocks - 1 < 2 ^ 64" by linarith
  qed
  show ?thesis
  proof (cases "length blocks = 1")
    case True
    then have "erase_at i blocks = []" using len by simp
    with True \<open>i < length blocks\<close> inv count show ?thesis
      by (auto simp: pool_inv_def pool_dealloc_def pool_fits_def)
  next
    case False
    with \<open>i < length blocks\<close> inv count zero len set_erase_at [of i blocks] show ?thesis
      by (auto simp: pool_inv_def pool_dealloc_def pool_fits_def disjoint_blocks_erase)
  qed
qed (use inv in simp)

lemma pool_inv_mono: "pool_inv base sz k st \<Longrightarrow> pool_inv base sz (Suc k) st"
  by (cases st) (simp add: pool_inv_def)

lemma pool_inv_run:
  assumes "pool_fits s" "s = pool_construct base sz" "\<forall>ev\<in>set evs. small_event ev" "length evs < 2 ^ 64"
  shows "pool_inv base sz (length evs) (fold pool_step evs (s, []))"
  using assms(3,4)
proof (induction evs rule: rev_induct)
  case Nil
  with assms(1,2) show ?case by (simp add: pool_inv_def pool_construct_def)
next
  case (snoc ev evs)
  obtain s' bs where r: "fold pool_step evs (s, []) = (s', bs)" by fastforce
  from snoc r have inv: "pool_inv base sz (length evs) (s', bs)" by simp
  show ?case
  proof (cases ev)
    case (Alloc_block n)
    with pool_inv_alloc [OF inv] snoc.prems r show ?thesis by simp
  next
    case (Dealloc_block i)
    have "length evs < 2 ^ 64" using snoc.prems by simp
    from pool_inv_mono [OF pool_inv_dealloc [OF inv this, of i]] Dealloc_block r show ?thesis by simp
  qed
qed

section \<open>Handles\<close>

text \<open>Copies and destructions of the allocator objects of one pool; the first component counts them.\<close>

datatype handle_event = Copy_handle | Drop_handle

fun handle_step :: "handle_event \<Rightarrow> nat \<times> static_pool option \<Rightarrow> nat \<times> static_pool option" where
  "handle_step Copy_handle (k, Some s) = (if k = 0 then (k, Some s) else (k + 1, Some (pool_share s)))"
| "handle_step Drop_handle (k, Some s) = (if k = 0 then (k, Some s) else (k - 1, pool_destroy s))"
| "handle_step _ (k, None) = (k, None)"

lemma handle_run:
  assumes "length evs < 2 ^ 64 - 1"
  shows "\<exists>k s. fold handle_step evs (1, Some (pool_construct a sz)) = (k, Some s)
    \<and> sp_refs s = of_nat k \<and> k \<le> length evs + 1"
  using assms
proof (induction evs rule: rev_induct)
  case Nil
  then show ?case by (simp add: pool_construct_def)
next
  case (snoc ev evs)
  then obtain k s where r: "fold handle_step evs (1, Some (pool_construct a sz)) = (k, Some s)"
    "sp_refs s = of_nat k" "k \<le> length evs + 1" by auto
  from r(3) snoc.prems have "of_nat k = (0 :: 64 word) \<longleftrightarrow> k = 0" by (intro of_nat_zero_small) simp
  with r show ?case
    by (cases ev) (auto simp: pool_share_def pool_destroy_def of_nat_diff)
qed

section \<open>Properties\<close>



text \<open>
  An allocation succeeds exactly when it leaves at least one byte of the pool free: a request
  that fits exactly is refused.
\<close>

theorem pool_alloc_bound:
  assumes "pool_fits s" "unat n < 2 ^ 63" "unat (sp_p s) \<le> unat (sp_base s) + unat (sp_size s)"
  shows "(\<exists>r. pool_alloc n s = ok r) \<longleftrightarrow> unat (sp_p s) + unat n < unat (sp_base s) + unat (sp_size s)"
  using pool_alloc_iff [OF assms] by auto

theorem pool_alloc_bound_witness:
  "\<not> (\<exists>r. pool_alloc 20 (pool_construct 100 20) = ok r)"
  using pool_alloc_bound [of "pool_construct 100 20" 20] by (simp add: pool_construct_def pool_fits_def)

text \<open>
  A pool is never freed: whatever copies of its allocator are made and destroyed, even when all of
  them are gone, the pool still exists, because \<open>destroy\<close> tests the count before it decrements it.
\<close>

theorem pool_never_freed:
  assumes "length evs < 2 ^ 64 - 1"
  shows "snd (fold handle_step evs (1, Some (pool_construct a sz))) \<noteq> None"
  using handle_run [OF assms, of a sz] by auto

theorem pool_never_freed_witness:
  "fst (fold handle_step [Copy_handle, Drop_handle, Drop_handle] (1, Some (pool_construct 0 10))) = 0
   \<and> snd (fold handle_step [Copy_handle, Drop_handle, Drop_handle] (1, Some (pool_construct 0 10))) \<noteq> None"
  using pool_never_freed [of "[Copy_handle, Drop_handle, Drop_handle]" 0 10]
  by (simp add: pool_share_def pool_destroy_def pool_construct_def)

text \<open>
  A copy of an allocator shares its pool but compares unequal to it.
\<close>

theorem fields_alloc_copy_unequal:
  assumes "address \<noteq> fa_address other"
  shows "fa_pool (fst (fields_alloc_copy address other s)) = fa_pool other
    \<and> fields_alloc_neq (fst (fields_alloc_copy address other s)) other"
  using assms by (simp add: fields_alloc_copy_def fields_alloc_neq_def fields_alloc_eq_def)

theorem fields_alloc_copy_unequal_witness:
  "fields_alloc_neq (fst (fields_alloc_copy 8 \<lparr>fa_address = 0, fa_pool = 64\<rparr> (pool_construct 64 10)))
     \<lparr>fa_address = 0, fa_pool = 64\<rparr>"
  using fields_alloc_copy_unequal [of 8 "\<lparr>fa_address = 0, fa_pool = 64\<rparr>" "pool_construct 64 10"] by simp

end
