(* ===== verification/Spec2Isabelle.thy ===== *)
theory Spec2Isabelle
  imports Containers Async Base64 Random_Hmac Url Json Http Time_Utils Orders_Info Stream_Messages
    User_Stream User_Stream_Safety User_Stream_Properties User_Stream_Renewals Listen_Key Tg_Sender
    Chat_Update Telegram Sender_Race Saver_Statements Database Host_Monitor Session Server Startup Orders_Program Orders_Program_Properties Orders_Messages
    Market_Data Market_Stream Market_Stream_Properties Fields_Alloc
begin

text \<open>
  A verification development for binance_monitor, two C++ programs on Boost.Asio.

  \<^bold>\<open>The programs.\<close> binance_orders watches the Binance accounts of a MySQL table: for every account a
  WebSocket (\<open>user_data_stream_t\<close>) delivers order, balance and account messages, which a saver thread
  sends to the Telegram group of the account and stores in the database; a web server accepts new
  accounts, and a monitor thread polls the table for accounts added, removed or moved to another
  group. binance_prices keeps a table of the last price of every symbol from one WebSocket.

  \<^bold>\<open>Flow of data, binance_orders.\<close> Session (upload) and Host_Monitor (poll) put hosts into the host
  container; the launcher of Host_Monitor takes them out and starts, stops or changes the streams of
  User_Stream, whose frames Stream_Messages turns into items; they go through the stream container to
  the saver of Telegram, which gives a message to one of the senders of Tg_Sender and
  a statement to Database. Startup is \<open>main\<close>, and Orders_Program
  the running program with all its parts. binance_prices: Market_Stream puts the tickers of
  Market_Data into a container, from which the saver loop of Market_Data fills the table.

  \<^bold>\<open>Theories and sources.\<close>
  \<^item> Prelude: C++ errors and undefined behaviour as values of a result type, character classes, lists.
  \<^item> Containers: common/containers.hpp. \<open>waitable_container_t\<close> and \<open>locked_set_t\<close> as operations of their
    critical sections, and the blocking of \<open>get\<close> with notifications and spurious wake-ups. The
    locales \<open>fifo_queue\<close> (what the consumer loops use) and \<open>item_set\<close> are interpreted on them.
  \<^item> Async: the shape of a client of Boost.Asio. A member function or completion handler maps the state
    of its object to an error or a new state with the operations it started and its outputs; a run is
    a list of completion events. The locale \<open>async_client\<close> lifts an invariant of the steps to all
    runs; \<open>checked_client\<close> adds the causes of escaping errors, \<open>safe_client\<close> has none, and the runs of
    a \<open>finite_client\<close> end. Every client below interprets one of them.
  \<^item> Json, Http: values, accessors and requests of the libraries; common/json_utils.hpp and .cpp.
  \<^item> Base64, Random_Hmac, Url, Time_Utils: common/crypto.cpp, the random, URL and time functions
    (common/json_utils.cpp, src/session.cpp, src/user_data_stream.cpp of binance_orders).
  \<^item> Orders_Info, Stream_Messages: orders_info.hpp, host_info.hpp and the message handlers of
    user_data_stream.cpp, field by field.
  \<^item> User_Stream, User_Stream_Safety, User_Stream_Properties: user_data_stream.cpp. Every
    \<open>std::optional\<close> member is an \<open>option\<close>; streams, resolvers and timers have identities, and an
    operation in flight names its object. A stream owns its keep-alive objects: it creates and destroys
    them, and their handlers, also those of destroyed ones, are steps of the stream.
  \<^item> User_Stream_Renewals: a stream with its keep-alive objects: which requests it sends, how many exist.
  \<^item> Listen_Key, Chat_Update, Tg_Sender: listen_key_keepalive.cpp, chat_update.cpp,
    tg_message_sender.cpp.
  \<^item> Telegram: telegram_process.cpp and the body of \<open>persistent_orders_saver\<close> (background_threads.cpp).
  \<^item> Sender_Race: the end of \<open>send_telegram_message\<close> as the sequence of its calls of the senders. The
    calls compute \<open>chat_known\<close> of Telegram; the handlers of the senders, which run on other threads, may
    run between them, and then a message is still given to one sender, but possibly to one that has
    just completed and never sends it.
  \<^item> Saver_Statements: an iteration of the saver as the sequence of its SQL statements. \<open>db_mutex_\<close> makes
    a statement atomic, not an iteration: the rows inserted are the same when statements of other
    threads run in between.
  \<^item> Database: database_connector.cpp; the SQL text is computed, the database behind OTL a parameter.
  \<^item> Host_Monitor: the launcher and the monitor of background_threads.cpp.
  \<^item> Session, Server, Startup: session.cpp, server.cpp, main.cpp.
  \<^item> Orders_Program, Orders_Program_Properties: the running program. A step is a completion handler of
    the server, a session, a stream or a sender, or an iteration of a thread; all steps work on one
    database and two containers, and a run is any list of steps. A stream that was removed stays until
    its keep-alive objects have finished. The program ends when an error escapes from a step.
  \<^item> Orders_Messages: the Telegram messages of the running program, from the items of the streams to the
    requests of the senders.
  \<^item> Market_Data, Market_Stream, Market_Stream_Properties: binance_prices, market_data_stream.cpp and
    websock_launcher.cpp.
  \<^item> Fields_Alloc: binance_prices/include/fields_alloc.hpp.

  \<^bold>\<open>Specifications.\<close> Host_Monitor refines its vector of streams to a list of hosts and this to a map
  from accounts to groups: after a poll and a drained container the map is the table.
  Orders_Program_Properties and Market_Stream_Properties state what must reach the database or the
  price table and show it for all interleavings of the parts; the first also shows that the saver
  catches up, lists every way in which the program can end, from the invariants of its parts, and
  lifts the refinement of the hosts to the running program. Orders_Messages accounts for every message
  to Telegram. The clients of Asio have an invariant that says which operation is in flight
  and what its object holds; from it follow the absence or the exact causes of
  undefined behaviour, single connections, order and number of messages. Base64 is proved against a
  reference encoding by groups of three bytes, \<open>gmtime\<close> against the calendar, the SQL statements
  against a reader of MySQL literals, the Telegram texts against \<open>decode_url\<close>.

  \<^bold>\<open>Loops and bounds.\<close> Loops over data are structural or have a measure and terminate; the endless
  loops of the threads (\<open>consumer_loop\<close>) run for a given number of iterations and stop where \<open>get\<close>
  blocks: as many iterations as there are items are enough to drain a container, and the theorems say
  so. Words keep their width in Base64 (8 and 32 bits), Time_Utils and Fields_Alloc (64 bits);
  \<open>base64_encode\<close> is correct up to the length that its buffer computation allows.

  \<^bold>\<open>Assumptions.\<close> The JSON parser and serialiser, double arithmetic, the database, the random generator
  and OpenSSL are parameters. An operation of Asio succeeds only while its object exists; timers of
  minutes do not expire while a handler is ready to run. Handlers of one object run one at a time.
  A \<open>tg_message_sender_t\<close> can be constructed, although its member \<open>resolver_{nullptr}\<close> is a resolver over
  an empty executor, for which Asio may throw.

  \<^bold>\<open>Not modelled.\<close> Data races on memory (the saver thread changes the queues of senders that run on
  other threads without a lock; Sender_Race takes each of its calls as atomic), TLS and the certificate setting, time-outs as durations, logging output,
  the parsing of the command line, the vendored libraries and the build files. The task types of
  binance_prices/include/subscription_data.hpp are only data: no code uses them, and the conversion
  functions declared there are defined nowhere.
\<close>

end
